theory Spec2Isabelle
  imports Complex_Main "HOL-Library.AList"
begin

section \<open>Data model (the MySQL schema of \<^verbatim>\<open>initializeTables\<close>)\<close>

text \<open>
  A calendar day is a day number (\<open>int\<close>, days since 1970-01-01): the value of a
  \<^verbatim>\<open>DATE\<close> column and of a \<^verbatim>\<open>YYYY-MM-DD\<close> string. Columns filled by
  \<^verbatim>\<open>DEFAULT CURRENT_TIMESTAMP\<close> are left out.
\<close>

type_synonym date = int

datatype status = Present | Absent

datatype notif_status = Pending | Sent

record student =
  s_id :: string
  s_name :: string
  s_card_id :: string
  s_parent_phone :: string
  s_parent_email :: string
  s_class :: string

record attendance_row =
  a_id :: string
  a_student_id :: string
  a_student_name :: string
  a_card_id :: string
  a_date :: date
  a_timestamp :: string
  a_status :: status
  a_auto_marked :: bool

record notification =
  n_id :: string
  n_student_id :: string
  n_student_name :: string
  n_type :: string
  n_message :: string
  n_status :: notif_status
  n_consecutive_absent_days :: int

record daily_report =
  r_id :: string
  r_date :: date
  r_day_number :: int
  r_total_students :: int
  r_present_count :: int
  r_absent_count :: int
  r_attendance_rate :: int

text \<open>The database: one list of rows per table, in insertion order.\<close>

record db =
  students :: "student list"
  attendance :: "attendance_row list"
  notifications :: "notification list"
  daily_reports :: "daily_report list"

text \<open>
  What \<^verbatim>\<open>pool.execute\<close> can throw: a duplicate key (\<^verbatim>\<open>PRIMARY KEY\<close>,
  \<^verbatim>\<open>UNIQUE KEY\<close>), a foreign key with no parent row, or a lost connection.
\<close>

datatype store_error = ER_DUP_ENTRY | ER_NO_REFERENCED_ROW | StoreUnavailable

section \<open>JavaScript dates\<close>

text \<open>
  A \<^verbatim>\<open>Date\<close> is an instant, here in minutes since the epoch (the code never looks
  below the day, and a time zone's offset is a whole number of minutes). The time zone
  of the Node process is what ECMAScript calls the local time zone adjustment: \<open>tza_utc\<close>
  gives the offset of local time from UTC at an instant, \<open>tza_local\<close> the offset used
  to read a local time value (for one that a backward change of the clock repeats, the
  offset before the change).
\<close>

type_synonym instant = int

record zone =
  tza_utc :: "instant \<Rightarrow> int"
  tza_local :: "int \<Rightarrow> int"

text \<open>\<^verbatim>\<open>new Date('YYYY-MM-DD')\<close>: a date-only string is read as midnight UTC.\<close>

definition Date_of_string :: "date \<Rightarrow> instant" where
  "Date_of_string day = day * 1440"

text \<open>\<^verbatim>\<open>.toISOString().split('T')[0]\<close>: the calendar day of the instant in UTC.\<close>

definition toISODate :: "instant \<Rightarrow> date" where
  "toISODate t = t div 1440"

text \<open>ECMAScript's \<^verbatim>\<open>LocalTime(t)\<close> and \<^verbatim>\<open>UTC(t)\<close>.\<close>

definition LocalTime :: "zone \<Rightarrow> instant \<Rightarrow> int" where
  "LocalTime z t = t + tza_utc z t"

definition UTC :: "zone \<Rightarrow> int \<Rightarrow> instant" where
  "UTC z t = t - tza_local z t"

text \<open>
  The \<^verbatim>\<open>Date\<close> that the mysql2 driver, with the default options of \<^verbatim>\<open>dbConfig\<close>
  (no \<^verbatim>\<open>dateStrings\<close>, no \<^verbatim>\<open>timezone\<close>), returns for a \<^verbatim>\<open>DATE\<close> column:
  \<^verbatim>\<open>new Date(year, month - 1, day)\<close>, midnight of that day in local time.
\<close>

definition Date_of_column :: "zone \<Rightarrow> date \<Rightarrow> instant" where
  "Date_of_column z day = UTC z (day * 1440)"

text \<open>
  \<^verbatim>\<open>currentDate.setDate(currentDate.getDate() - 1)\<close>: the day before in local time,
  at the same local time of day.
\<close>

definition setDate_previous :: "zone \<Rightarrow> instant \<Rightarrow> instant" where
  "setDate_previous z t = UTC z (LocalTime z t - 1440)"

text \<open>A zone whose offset from UTC is always \<open>c\<close> minutes; \<open>fixed_zone 0\<close> is UTC.\<close>

definition fixed_zone :: "int \<Rightarrow> zone" where
  "fixed_zone c = \<lparr>tza_utc = (\<lambda>t. c), tza_local = (\<lambda>t. c)\<rparr>"

section \<open>The environment of a run\<close>

text \<open>
  What one run of a handler takes from outside, each read once for the run:
  \<open>getCurrentDate\<close>, the calendar day in UTC
  (\<^verbatim>\<open>new Date().toISOString().split('T')[0]\<close>), and the local time of day; the
  values of its calls of \<^verbatim>\<open>generateUUID()\<close> in order; \<open>fail_at\<close>, the index (from 0)
  of the \<^verbatim>\<open>pool.execute\<close> call of this run at which the connection is lost, if any;
  \<open>tz\<close>, the time zone of the Node process; \<open>CURDATE\<close>, the calendar day in the
  database session's time zone; and \<open>tie_rank\<close>, the order in which the database
  delivers rows that an \<^verbatim>\<open>ORDER BY\<close> leaves tied (smaller rank first, equal ranks
  in table order).
\<close>

record env =
  getCurrentDate :: date
  getCurrentTime :: string
  uuid1 :: string
  uuid2 :: string
  fail_at :: "nat option"
  tz :: zone
  CURDATE :: date
  tie_rank :: "attendance_row \<Rightarrow> int"

text \<open>The \<open>k\<close>-th \<^verbatim>\<open>await pool.execute(...)\<close> of a run, given the statement's outcome.\<close>

definition execute :: "env \<Rightarrow> nat \<Rightarrow> store_error + 'a \<Rightarrow> store_error + 'a" where
  "execute e k outcome = (if fail_at e = Some k then Inl StoreUnavailable else outcome)"

section \<open>SQL statements\<close>

text \<open>\<^verbatim>\<open>SELECT id FROM attendance WHERE student_id = ? AND date = ?\<close>\<close>

definition select_attendance :: "db \<Rightarrow> string \<Rightarrow> date \<Rightarrow> attendance_row list" where
  "select_attendance d sid day =
     filter (\<lambda>a. a_student_id a = sid \<and> a_date a = day) (attendance d)"

text \<open>
  \<^verbatim>\<open>INSERT INTO attendance ...\<close>. The table's keys are \<^verbatim>\<open>PRIMARY KEY (id)\<close> and
  \<^verbatim>\<open>FOREIGN KEY (student_id) REFERENCES students(id)\<close>; \<^verbatim>\<open>idx_date\<close> and
  \<^verbatim>\<open>idx_student_date (student_id, date)\<close> are plain indexes, so they reject nothing.
\<close>

definition insert_attendance :: "db \<Rightarrow> attendance_row \<Rightarrow> store_error + db" where
  "insert_attendance d row =
     (if a_id row \<in> set (map a_id (attendance d)) then Inl ER_DUP_ENTRY
      else if a_student_id row \<notin> set (map s_id (students d)) then Inl ER_NO_REFERENCED_ROW
      else Inr (d\<lparr>attendance := attendance d @ [row]\<rparr>))"

text \<open>\<^verbatim>\<open>INSERT INTO notifications ...\<close>: primary key \<^verbatim>\<open>id\<close>, foreign key \<^verbatim>\<open>student_id\<close>.\<close>

definition insert_notification :: "db \<Rightarrow> notification \<Rightarrow> store_error + db" where
  "insert_notification d row =
     (if n_id row \<in> set (map n_id (notifications d)) then Inl ER_DUP_ENTRY
      else if n_student_id row \<notin> set (map s_id (students d)) then Inl ER_NO_REFERENCED_ROW
      else Inr (d\<lparr>notifications := notifications d @ [row]\<rparr>))"

text \<open>
  The query of \<^verbatim>\<open>checkConsecutiveAbsences\<close>:
  \<^verbatim>\<open>SELECT date, status FROM attendance WHERE student_id = ?
    AND date >= DATE_SUB(CURDATE(), INTERVAL 5 DAY) ORDER BY date DESC\<close>.
  Both sorts are stable, so rows of one date come in the order of \<open>tie_rank\<close>.
\<close>

definition select_recent :: "env \<Rightarrow> db \<Rightarrow> string \<Rightarrow> (date \<times> status) list" where
  "select_recent e d studentId =
     map (\<lambda>a. (a_date a, a_status a))
       (sort_key (\<lambda>a. - a_date a)
          (sort_key (tie_rank e)
             (filter (\<lambda>a. a_student_id a = studentId \<and> a_date a \<ge> CURDATE e - 5)
                (attendance d))))"

section \<open>The consecutive-absence evaluator\<close>

text \<open>
  The \<^verbatim>\<open>for (let i = 0; i < 5; i++)\<close> loop of \<^verbatim>\<open>checkConsecutiveAbsences\<close>; the
  second argument is the number of iterations left and \<open>n\<close> is \<^verbatim>\<open>consecutiveAbsences\<close>.
  \<^verbatim>\<open>rows.find\<close> is \<^const>\<open>find\<close>: the first row \<open>r\<close> for which the UTC day of
  \<^verbatim>\<open>r.date\<close> is the UTC day of \<^verbatim>\<open>currentDate\<close>.
\<close>

fun streak_loop :: "zone \<Rightarrow> nat \<Rightarrow> instant \<Rightarrow> (date \<times> status) list \<Rightarrow> int \<Rightarrow> int" where
  "streak_loop z 0 currentDate rows n = n"
| "streak_loop z (Suc k) currentDate rows n =
     (case find (\<lambda>r. toISODate (Date_of_column z (fst r)) = toISODate currentDate) rows of
        Some r \<Rightarrow>
          if snd r = Absent then streak_loop z k (setDate_previous z currentDate) rows (n + 1)
          else if snd r = Present then n
          else streak_loop z k (setDate_previous z currentDate) rows (n + 1)
      | None \<Rightarrow> streak_loop z k (setDate_previous z currentDate) rows (n + 1))"

definition checkConsecutiveAbsences :: "env \<Rightarrow> db \<Rightarrow> string \<Rightarrow> int" where
  "checkConsecutiveAbsences e d studentId =
     streak_loop (tz e) 5 (Date_of_string (getCurrentDate e)) (select_recent e d studentId) 0"

section \<open>The evaluator as the specification words it\<close>

text \<open>The statuses of the marks of person \<open>sid\<close> on one day, in table order.\<close>

definition day_marks :: "db \<Rightarrow> string \<Rightarrow> date \<Rightarrow> status list" where
  "day_marks d sid day = map a_status (select_attendance d sid day)"

text \<open>
  The specification's walk: backward from \<open>asOfDate\<close> one day at a time for at most
  \<open>k\<close> days, counting a day that has an explicit absent mark or no mark at all, and
  stopping at a day with a present mark.
\<close>

fun spec_walk :: "(date \<Rightarrow> status list) \<Rightarrow> nat \<Rightarrow> date \<Rightarrow> int" where
  "spec_walk marks 0 day = 0"
| "spec_walk marks (Suc k) day =
     (if Absent \<in> set (marks day) \<or> marks day = [] then 1 + spec_walk marks k (day - 1)
      else 0)"

definition spec_streak :: "db \<Rightarrow> string \<Rightarrow> date \<Rightarrow> int" where
  "spec_streak d sid asOfDate = spec_walk (day_marks d sid) 5 asOfDate"

text \<open>
  The data model's invariant: at most one attendance mark per (person id, date). The
  schema does not enforce it; it is a property a database may or may not have.
\<close>

definition unique_marks :: "db \<Rightarrow> bool" where
  "unique_marks d = distinct (map (\<lambda>a. (a_student_id a, a_date a)) (attendance d))"

section \<open>Process state: the timer manager and the event loop\<close>

text \<open>What a timeout runs when it fires: the absence callback of a student, or the day's end.\<close>

datatype callback = AbsenceExpiry student | DayCompleted

text \<open>
  \<open>timers\<close> is \<^verbatim>\<open>timerManager.timers\<close>, a \<^verbatim>\<open>Map\<close> from student id to timeout
  handle, as an association list with the \<^verbatim>\<open>Map\<close>'s operations (\<^const>\<open>map_of\<close>,
  \<^const>\<open>AList.update\<close>, \<^const>\<open>AList.delete\<close>); \<open>dayTimer\<close> is
  \<^verbatim>\<open>timerManager.dayTimer\<close>. \<open>pending\<close> is the event loop's list of armed timeouts,
  and \<open>next_handle\<close> numbers the \<^verbatim>\<open>Timeout\<close> objects \<^verbatim>\<open>setTimeout\<close> creates.
\<close>

record sys =
  store :: db
  timers :: "(string \<times> nat) list"
  dayTimer :: "nat option"
  pending :: "(nat \<times> callback) list"
  next_handle :: nat

definition setTimeout :: "callback \<Rightarrow> sys \<Rightarrow> nat \<times> sys" where
  "setTimeout cb s =
     (next_handle s,
      s\<lparr>pending := pending s @ [(next_handle s, cb)], next_handle := Suc (next_handle s)\<rparr>)"

definition clearTimeout :: "nat \<Rightarrow> sys \<Rightarrow> sys" where
  "clearTimeout h s = s\<lparr>pending := AList.delete h (pending s)\<rparr>"

section \<open>The timer manager\<close>

definition clearStudentTimer :: "string \<Rightarrow> sys \<Rightarrow> sys" where
  "clearStudentTimer studentId s =
     (case map_of (timers s) studentId of
        Some h \<Rightarrow> (clearTimeout h s)\<lparr>timers := AList.delete studentId (timers s)\<rparr>
      | None \<Rightarrow> s)"

definition clearAllTimers :: "sys \<Rightarrow> sys" where
  "clearAllTimers s =
     (let s1 = fold clearTimeout (map snd (timers s)) s;
          s2 = s1\<lparr>timers := []\<rparr>
      in case dayTimer s2 of
           Some h \<Rightarrow> (clearTimeout h s2)\<lparr>dayTimer := None\<rparr>
         | None \<Rightarrow> s2)"

definition startAbsenceTimer :: "student \<Rightarrow> sys \<Rightarrow> sys" where
  "startAbsenceTimer st s =
     (let s1 = (case map_of (timers s) (s_id st) of
                  Some h \<Rightarrow> clearTimeout h s
                | None \<Rightarrow> s);
          (timer, s2) = setTimeout (AbsenceExpiry st) s1
      in s2\<lparr>timers := AList.update (s_id st) timer (timers s2)\<rparr>)"

text \<open>
  \<^verbatim>\<open>startNewDay\<close>. The result's first component is the error the \<^verbatim>\<open>async\<close> function
  rejects with, if any; its only statement is \<^verbatim>\<open>SELECT * FROM students\<close>.
\<close>

definition startNewDay :: "env \<Rightarrow> sys \<Rightarrow> store_error option \<times> sys" where
  "startNewDay e s =
     (let s1 = clearAllTimers s in
      case execute e 0 (Inr (students (store s1))) of
        Inl err \<Rightarrow> (Some err, s1)
      | Inr roster \<Rightarrow>
          (let s2 = fold startAbsenceTimer roster s1;
               (timer, s3) = setTimeout DayCompleted s2
           in (None, s3\<lparr>dayTimer := Some timer\<rparr>)))"

section \<open>The expiry callback of \<^verbatim>\<open>startAbsenceTimer\<close>\<close>

fun show_nat :: "nat \<Rightarrow> string" where
  "show_nat n =
     (if n < 10 then [char_of (48 + n)] else show_nat (n div 10) @ [char_of (48 + n mod 10)])"

declare show_nat.simps [simp del]

definition show_int :: "int \<Rightarrow> string" where
  "show_int i = (if i < 0 then CHR ''-'' # show_nat (nat (- i)) else show_nat (nat i))"

definition absent_row :: "env \<Rightarrow> student \<Rightarrow> attendance_row" where
  "absent_row e st =
     \<lparr>a_id = uuid1 e, a_student_id = s_id st, a_student_name = s_name st,
      a_card_id = s_card_id st, a_date = getCurrentDate e, a_timestamp = getCurrentTime e,
      a_status = Absent, a_auto_marked = True\<rparr>"

definition absence_notification :: "env \<Rightarrow> student \<Rightarrow> int \<Rightarrow> notification" where
  "absence_notification e st consecutiveAbsences =
     \<lparr>n_id = uuid2 e, n_student_id = s_id st, n_student_name = s_name st,
      n_type = ''consecutive_absence'',
      n_message = ''Alert: Your child '' @ s_name st @ '' has been absent for ''
                    @ show_int consecutiveAbsences @ '' consecutive days.'',
      n_status = Pending, n_consecutive_absent_days = consecutiveAbsences\<rparr>"

text \<open>
  The \<^verbatim>\<open>try\<close> block from the point where the first \<^verbatim>\<open>await\<close> has delivered
  \<open>existing\<close>. The first component of the result is the error that reaches
  \<^verbatim>\<open>catch\<close>, which only logs it; \<^verbatim>\<open>this.timers.delete(student.id)\<close> is the block's
  last statement.
\<close>

definition expiry_continue ::
  "env \<Rightarrow> student \<Rightarrow> attendance_row list \<Rightarrow> sys \<Rightarrow> store_error option \<times> sys" where
  "expiry_continue e st existing s =
     (if existing = [] then
        (case execute e 1 (insert_attendance (store s) (absent_row e st)) of
           Inl err \<Rightarrow> (Some err, s)
         | Inr d1 \<Rightarrow>
             (let s1 = s\<lparr>store := d1\<rparr> in
              case execute e 2 (Inr (checkConsecutiveAbsences e d1 (s_id st))) of
                Inl err \<Rightarrow> (Some err, s1)
              | Inr consecutiveAbsences \<Rightarrow>
                  if consecutiveAbsences \<ge> 3 then
                    (case execute e 3
                            (insert_notification d1
                               (absence_notification e st consecutiveAbsences)) of
                       Inl err \<Rightarrow> (Some err, s1)
                     | Inr d2 \<Rightarrow>
                         (None, s1\<lparr>store := d2,
                                   timers := AList.delete (s_id st) (timers s1)\<rparr>))
                  else (None, s1\<lparr>timers := AList.delete (s_id st) (timers s1)\<rparr>)))
      else (None, s\<lparr>timers := AList.delete (s_id st) (timers s)\<rparr>))"

definition expiry_callback :: "env \<Rightarrow> student \<Rightarrow> sys \<Rightarrow> store_error option \<times> sys" where
  "expiry_callback e st s =
     (case execute e 0 (Inr (select_attendance (store s) (s_id st) (getCurrentDate e))) of
        Inl err \<Rightarrow> (Some err, s)
      | Inr existing \<Rightarrow> expiry_continue e st existing s)"

text \<open>
  The event loop fires the armed timeout \<open>h\<close>: it leaves the list of armed timeouts and
  its callback runs. A rejected \<^verbatim>\<open>startNewDay\<close> promise reaches no handler.
\<close>

definition fire :: "nat \<Rightarrow> env \<Rightarrow> sys \<Rightarrow> sys" where
  "fire h e s =
     (case map_of (pending s) h of
        None \<Rightarrow> s
      | Some cb \<Rightarrow>
          (let s1 = clearTimeout h s in
           case cb of
             AbsenceExpiry st \<Rightarrow> snd (expiry_callback e st s1)
           | DayCompleted \<Rightarrow> snd (startNewDay e s1)))"

section \<open>Routes\<close>

text \<open>
  The responses of the routes modelled here: \<open>Success\<close> is \<^verbatim>\<open>{success: true}\<close> (with the
  student for a recorded check-in), \<open>AlreadyRecorded\<close> and \<open>ReportExists\<close> the 200
  responses with \<^verbatim>\<open>success: false\<close> of a second mark or a second report for the
  day, then the 400, 404 and 500 responses.
\<close>

datatype response =
    Success
  | SuccessStudent student
  | AlreadyRecorded
  | ReportExists
  | BadRequest
  | NotFound
  | ServerError store_error

text \<open>\<^verbatim>\<open>SELECT * FROM students WHERE card_id = ?\<close>\<close>

definition select_students_by_card :: "db \<Rightarrow> string \<Rightarrow> student list" where
  "select_students_by_card d cardId = filter (\<lambda>st. s_card_id st = cardId) (students d)"

text \<open>
  \<^verbatim>\<open>DELETE FROM students WHERE id = ?\<close>, with the number of rows deleted. Deleting a
  student deletes the attendance and notification rows that reference it
  (\<^verbatim>\<open>ON DELETE CASCADE\<close>).
\<close>

definition delete_student :: "db \<Rightarrow> string \<Rightarrow> nat \<times> db" where
  "delete_student d i =
     (if i \<in> set (map s_id (students d)) then
        (length (filter (\<lambda>st. s_id st = i) (students d)),
         d\<lparr>students := filter (\<lambda>st. s_id st \<noteq> i) (students d),
           attendance := filter (\<lambda>a. a_student_id a \<noteq> i) (attendance d),
           notifications := filter (\<lambda>n. n_student_id n \<noteq> i) (notifications d)\<rparr>)
      else (0, d))"

text \<open>\<^verbatim>\<open>DELETE /api/students/:id\<close>\<close>

definition api_students_delete :: "env \<Rightarrow> string \<Rightarrow> sys \<Rightarrow> response \<times> sys" where
  "api_students_delete e i s =
     (case execute e 0 (Inr (delete_student (store s) i)) of
        Inl err \<Rightarrow> (ServerError err, s)
      | Inr (affectedRows, d1) \<Rightarrow>
          (let s1 = s\<lparr>store := d1\<rparr> in
           if affectedRows = 0 then (NotFound, s1)
           else (Success, clearStudentTimer i s1)))"

definition present_row :: "env \<Rightarrow> student \<Rightarrow> attendance_row" where
  "present_row e st =
     \<lparr>a_id = uuid1 e, a_student_id = s_id st, a_student_name = s_name st,
      a_card_id = s_card_id st, a_date = getCurrentDate e, a_timestamp = getCurrentTime e,
      a_status = Present, a_auto_marked = False\<rparr>"

text \<open>
  \<^verbatim>\<open>POST /api/attendance/record\<close>. A missing \<^verbatim>\<open>cardId\<close> and an empty one are both
  falsy, so both are the empty string here.
\<close>

definition api_attendance_record :: "env \<Rightarrow> string \<Rightarrow> sys \<Rightarrow> response \<times> sys" where
  "api_attendance_record e cardId s =
     (if cardId = [] then (BadRequest, s)
      else
        case execute e 0 (Inr (select_students_by_card (store s) cardId)) of
          Inl err \<Rightarrow> (ServerError err, s)
        | Inr [] \<Rightarrow> (NotFound, s)
        | Inr (student # _) \<Rightarrow>
            (case execute e 1
                    (Inr (select_attendance (store s) (s_id student) (getCurrentDate e))) of
               Inl err \<Rightarrow> (ServerError err, s)
             | Inr existing \<Rightarrow>
                 if existing \<noteq> [] then (AlreadyRecorded, s)
                 else
                   (case execute e 2 (insert_attendance (store s) (present_row e student)) of
                      Inl err \<Rightarrow> (ServerError err, s)
                    | Inr d1 \<Rightarrow>
                        (let s1 = clearStudentTimer (s_id student) (s\<lparr>store := d1\<rparr>) in
                         case execute e 3
                                (Inr (checkConsecutiveAbsences e d1 (s_id student))) of
                           Inl err \<Rightarrow> (ServerError err, s1)
                         | Inr consecutiveAbsences \<Rightarrow> (SuccessStudent student, s1)))))"

text \<open>\<^verbatim>\<open>SELECT * FROM students WHERE id = ?\<close>\<close>

definition select_student_by_id :: "db \<Rightarrow> string \<Rightarrow> student list" where
  "select_student_by_id d i = filter (\<lambda>st. s_id st = i) (students d)"

definition manual_absent_row :: "env \<Rightarrow> student \<Rightarrow> attendance_row" where
  "manual_absent_row e st =
     \<lparr>a_id = uuid1 e, a_student_id = s_id st, a_student_name = s_name st,
      a_card_id = s_card_id st, a_date = getCurrentDate e, a_timestamp = getCurrentTime e,
      a_status = Absent, a_auto_marked = False\<rparr>"

text \<open>\<^verbatim>\<open>POST /api/attendance/manual-absent/:studentId\<close>\<close>

definition api_manual_absent :: "env \<Rightarrow> string \<Rightarrow> sys \<Rightarrow> response \<times> sys" where
  "api_manual_absent e studentId s =
     (case execute e 0 (Inr (select_student_by_id (store s) studentId)) of
        Inl err \<Rightarrow> (ServerError err, s)
      | Inr [] \<Rightarrow> (NotFound, s)
      | Inr (student # _) \<Rightarrow>
          (case execute e 1
                  (Inr (select_attendance (store s) (s_id student) (getCurrentDate e))) of
             Inl err \<Rightarrow> (ServerError err, s)
           | Inr existing \<Rightarrow>
               if existing \<noteq> [] then (AlreadyRecorded, s)
               else
                 (case execute e 2
                         (insert_attendance (store s) (manual_absent_row e student)) of
                    Inl err \<Rightarrow> (ServerError err, s)
                  | Inr d1 \<Rightarrow> (Success, clearStudentTimer (s_id student) (s\<lparr>store := d1\<rparr>)))))"

section \<open>JavaScript numbers\<close>

text \<open>
  A \<^verbatim>\<open>Number\<close> is an IEEE 754 binary64 value; the finite ones are rationals.
  \<open>binary64 x\<close> is the result of an arithmetic operation whose exact value is \<open>x\<close>: the
  nearest number with a 53-bit significand, a tie going to the even significand. It is
  written for \<open>x \<ge> 0\<close> in the normal range, which the counts of a report never leave.
\<close>

definition round_half_even :: "rat \<Rightarrow> int" where
  "round_half_even x =
     (let f = \<lfloor>x\<rfloor>; r = x - of_int f
      in if r < 1 / 2 then f else if 1 / 2 < r then f + 1 else if even f then f else f + 1)"

function bit_length :: "int \<Rightarrow> int" where
  "bit_length n = (if n \<le> 0 then 0 else 1 + bit_length (n div 2))"
  by pat_completeness auto
termination
  by (relation "measure nat") auto

declare bit_length.simps [simp del]

text \<open>For \<open>x > 0\<close>, the \<open>k\<close> with \<open>2 ^ k \<le> x < 2 ^ (k + 1)\<close>.\<close>

definition floor_log2 :: "rat \<Rightarrow> int" where
  "floor_log2 x =
     (let (a, b) = quotient_of x;
          k = bit_length a - bit_length b
      in if 2 powi k \<le> x then k else k - 1)"

definition binary64 :: "rat \<Rightarrow> rat" where
  "binary64 x =
     (if x = 0 then 0
      else let e = floor_log2 x - 52
           in of_int (round_half_even (x / 2 powi e)) * 2 powi e)"

text \<open>\<^verbatim>\<open>Math.round\<close>: the nearest integer, a tie going up.\<close>

definition Math_round :: "rat \<Rightarrow> int" where
  "Math_round x = \<lfloor>x + 1 / 2\<rfloor>"

section \<open>Report generation\<close>

text \<open>
  \<^verbatim>\<open>SELECT status, COUNT(*) as count FROM attendance WHERE date = ? GROUP BY status\<close>:
  one row for each status that occurs on the day.
\<close>

definition count_by_status :: "db \<Rightarrow> date \<Rightarrow> (status \<times> int) list" where
  "count_by_status d day =
     (let rows = filter (\<lambda>a. a_date a = day) (attendance d)
      in filter (\<lambda>g. snd g \<noteq> 0)
           (map (\<lambda>st. (st, int (length (filter (\<lambda>a. a_status a = st) rows))))
              [Present, Absent]))"

text \<open>\<^verbatim>\<open>SELECT day_number FROM daily_reports ORDER BY day_number DESC LIMIT 1\<close>\<close>

definition select_last_day_number :: "db \<Rightarrow> int list" where
  "select_last_day_number d = take 1 (rev (sort (map r_day_number (daily_reports d))))"

text \<open>\<^verbatim>\<open>INSERT INTO daily_reports ...\<close>: primary key \<^verbatim>\<open>id\<close>, unique key \<^verbatim>\<open>date\<close>.\<close>

definition insert_daily_report :: "db \<Rightarrow> daily_report \<Rightarrow> store_error + db" where
  "insert_daily_report d row =
     (if r_id row \<in> set (map r_id (daily_reports d)) \<or> r_date row \<in> set (map r_date (daily_reports d))
      then Inl ER_DUP_ENTRY
      else Inr (d\<lparr>daily_reports := daily_reports d @ [row]\<rparr>))"

text \<open>
  \<^verbatim>\<open>totalStudents[0].count > 0 ? Math.round((presentCount / totalStudents[0].count) * 100) : 0\<close>
\<close>

definition attendanceRate :: "int \<Rightarrow> int \<Rightarrow> int" where
  "attendanceRate presentCount totalStudents =
     (if totalStudents > 0
      then Math_round (binary64 (binary64 (of_int presentCount / of_int totalStudents) * 100))
      else 0)"

text \<open>
  \<^verbatim>\<open>POST /api/reports/generate\<close>. A group's count is at least 1, so
  \<^verbatim>\<open>find(...)?.count || 0\<close> is the count of the group found and 0 when there is none.
\<close>

definition api_reports_generate :: "env \<Rightarrow> sys \<Rightarrow> response \<times> sys" where
  "api_reports_generate e s =
     (case execute e 0
             (Inr (filter (\<lambda>r. r_date r = getCurrentDate e) (daily_reports (store s)))) of
        Inl err \<Rightarrow> (ServerError err, s)
      | Inr existing \<Rightarrow>
          if existing \<noteq> [] then (ReportExists, s)
          else
            (case execute e 1 (Inr (count_by_status (store s) (getCurrentDate e))) of
               Inl err \<Rightarrow> (ServerError err, s)
             | Inr attendanceData \<Rightarrow>
            (case execute e 2 (Inr (int (length (students (store s))))) of
               Inl err \<Rightarrow> (ServerError err, s)
             | Inr totalStudents \<Rightarrow>
            (case execute e 3 (Inr (select_last_day_number (store s))) of
               Inl err \<Rightarrow> (ServerError err, s)
             | Inr lastReport \<Rightarrow>
                 (let presentCount =
                        (case find (\<lambda>r. fst r = Present) attendanceData of
                           Some r \<Rightarrow> snd r | None \<Rightarrow> 0);
                      absentCount =
                        (case find (\<lambda>r. fst r = Absent) attendanceData of
                           Some r \<Rightarrow> snd r | None \<Rightarrow> 0);
                      dayNumber = (case lastReport of [] \<Rightarrow> 1 | n # _ \<Rightarrow> n + 1)
                  in case execute e 4
                            (insert_daily_report (store s)
                               \<lparr>r_id = uuid1 e, r_date = getCurrentDate e,
                                r_day_number = dayNumber, r_total_students = totalStudents,
                                r_present_count = presentCount, r_absent_count = absentCount,
                                r_attendance_rate = attendanceRate presentCount totalStudents\<rparr>) of
                       Inl err \<Rightarrow> (ServerError err, s)
                     | Inr d1 \<Rightarrow> (Success, s\<lparr>store := d1\<rparr>))))))"

section \<open>Runs\<close>

text \<open>
  What happens to the process as time passes: an armed timeout fires, or a request
  reaches the check-in, the manual-absence or the removal route. Each event brings the
  environment of its run.
\<close>

datatype event =
  Fire nat env | CheckIn string env | ManualAbsent string env | Delete string env

fun step :: "event \<Rightarrow> sys \<Rightarrow> sys" where
  "step (Fire h e) s = fire h e s"
| "step (CheckIn cardId e) s = snd (api_attendance_record e cardId s)"
| "step (ManualAbsent studentId e) s = snd (api_manual_absent e studentId s)"
| "step (Delete i e) s = snd (api_students_delete e i s)"

definition run :: "event list \<Rightarrow> sys \<Rightarrow> sys" where
  "run evs s = fold step evs s"

text \<open>The database holds neither the person \<open>i\<close> nor a mark of that person.\<close>

definition no_trace :: "string \<Rightarrow> db \<Rightarrow> bool" where
  "no_trace i d =
     (i \<notin> set (map s_id (students d)) \<and> i \<notin> set (map a_student_id (attendance d)))"

section \<open>Well-formed timer states\<close>

text \<open>Every handle in use was issued by an earlier \<^verbatim>\<open>setTimeout\<close>.\<close>

definition handles_issued :: "sys \<Rightarrow> bool" where
  "handles_issued s =
     list_all (\<lambda>h. h < next_handle s) (map snd (timers s) @ map fst (pending s))"

text \<open>The armed timeouts that are absence timers, and whether \<^verbatim>\<open>timers\<close> holds them all.\<close>

definition absence_timeouts :: "sys \<Rightarrow> (nat \<times> callback) list" where
  "absence_timeouts s = filter (\<lambda>p. snd p \<noteq> DayCompleted) (pending s)"

definition all_registered :: "sys \<Rightarrow> bool" where
  "all_registered s = list_all (\<lambda>p. fst p \<in> set (map snd (timers s))) (absence_timeouts s)"

text \<open>
  The timer manager's invariant: handles were issued earlier, no two armed timeouts share
  a handle, and each armed absence timeout is the one \<^verbatim>\<open>timers\<close> holds for its student.
\<close>

definition timers_wf :: "sys \<Rightarrow> bool" where
  "timers_wf s =
     (handles_issued s \<and> distinct (map fst (pending s))
      \<and> list_all (\<lambda>p. case snd p of
                          AbsenceExpiry st \<Rightarrow> map_of (timers s) (s_id st) = Some (fst p)
                        | DayCompleted \<Rightarrow> True)
           (pending s))"

section \<open>Example histories\<close>

text \<open>A mark of person \<open>sid\<close> on a day, with row id \<open>i\<close>; the other columns are empty.\<close>

definition mark :: "string \<Rightarrow> string \<Rightarrow> date \<Rightarrow> status \<Rightarrow> attendance_row" where
  "mark i sid day st =
     \<lparr>a_id = i, a_student_id = sid, a_student_name = [], a_card_id = [], a_date = day,
      a_timestamp = [], a_status = st, a_auto_marked = False\<rparr>"

definition history :: "attendance_row list \<Rightarrow> db" where
  "history rows = \<lparr>students = [], attendance = rows, notifications = [], daily_reports = []\<rparr>"

text \<open>As of day 10: absent on days 9, 8 and 7, nothing else.\<close>

definition three_absent :: db where
  "three_absent =
     history [mark ''m1'' ''p'' 7 Absent, mark ''m2'' ''p'' 8 Absent, mark ''m3'' ''p'' 9 Absent]"

text \<open>The same with a present mark on day 6.\<close>

definition three_absent_after_present :: db where
  "three_absent_after_present =
     history [mark ''m0'' ''p'' 6 Present, mark ''m1'' ''p'' 7 Absent,
              mark ''m2'' ''p'' 8 Absent, mark ''m3'' ''p'' 9 Absent]"

text \<open>As of day 10: absent on days 9 and 7, present on day 8.\<close>

definition present_two_days_ago :: db where
  "present_two_days_ago =
     history [mark ''m1'' ''p'' 7 Absent, mark ''m2'' ''p'' 8 Present, mark ''m3'' ''p'' 9 Absent]"

text \<open>As of day 10: a present mark on day 10, nothing else.\<close>

definition present_today :: db where
  "present_today = history [mark ''m1'' ''p'' 10 Present]"

text \<open>As of day 20760 (2026-11-03): absent on 2026-11-02, present on 2026-11-01.\<close>

definition present_on_november_1 :: db where
  "present_on_november_1 =
     history [mark ''m1'' ''p'' 20758 Present, mark ''m2'' ''p'' 20759 Absent]"

text \<open>As of day 20760: present on 2026-10-30, absent on the three days before 2026-11-03.\<close>

definition absent_since_october_31 :: db where
  "absent_since_october_31 =
     history [mark ''m0'' ''p'' 20756 Present, mark ''m1'' ''p'' 20757 Absent,
              mark ''m2'' ''p'' 20758 Absent, mark ''m3'' ''p'' 20759 Absent]"

section \<open>Example time zones\<close>

text \<open>Africa/Kigali: two hours east of UTC all year.\<close>

definition kigali :: zone where
  "kigali = fixed_zone 120"

text \<open>
  America/New_York around the end of daylight saving time in 2026: four hours west of
  UTC until 2026-11-01T06:00Z (02:00 local time on day 20758), five hours from then on.
\<close>

definition new_york :: zone where
  "new_york =
     \<lparr>tza_utc = (\<lambda>t. if t < 20758 * 1440 + 360 then - 240 else - 300),
      tza_local = (\<lambda>t. if t < 20758 * 1440 + 120 then - 240 else - 300)\<rparr>"

section \<open>Example states\<close>

definition alice :: student where
  "alice = \<lparr>s_id = ''id-alice'', s_name = ''Alice'', s_card_id = ''C1'',
            s_parent_phone = [], s_parent_email = [], s_class = ''5A''\<rparr>"

definition bob :: student where
  "bob = \<lparr>s_id = ''id-bob'', s_name = ''Bob'', s_card_id = ''C2'',
          s_parent_phone = [], s_parent_email = [], s_class = ''5B''\<rparr>"

text \<open>
  Day 10 in a process and a database that both run on UTC, a connection that holds, the
  ids the run will generate, and tied rows delivered in table order.
\<close>

definition env0 :: env where
  "env0 = \<lparr>getCurrentDate = 10, getCurrentTime = ''08:01:00'', uuid1 = ''u1'', uuid2 = ''u2'',
           fail_at = None, tz = fixed_zone 0, CURDATE = 10, tie_rank = (\<lambda>a. 0)\<rparr>"

text \<open>The same day with the process in Kigali.\<close>

definition env_kigali :: env where
  "env_kigali = env0\<lparr>tz := kigali\<rparr>"

text \<open>2026-11-03 with the process in New York.\<close>

definition env_new_york :: env where
  "env_new_york = env0\<lparr>getCurrentDate := 20760, CURDATE := 20760, tz := new_york\<rparr>"

text \<open>Alice and Bob on the roster, no marks yet, and the process before \<^verbatim>\<open>startDaySystem\<close>.\<close>

definition idle :: sys where
  "idle = \<lparr>store = \<lparr>students = [alice, bob], attendance = [], notifications = [],
                     daily_reports = []\<rparr>,
           timers = [], dayTimer = None, pending = [], next_handle = 0\<rparr>"

text \<open>The state after \<^verbatim>\<open>startNewDay\<close>: timeouts 0 (Alice), 1 (Bob) and 2 (the day).\<close>

definition running :: sys where
  "running = idle\<lparr>timers := [(''id-alice'', 0), (''id-bob'', 1)], dayTimer := Some 2,
                  pending := [(0, AbsenceExpiry alice), (1, AbsenceExpiry bob), (2, DayCompleted)],
                  next_handle := 3\<rparr>"

text \<open>The same run with the connection lost at the \<open>k\<close>-th statement.\<close>

definition outage :: "nat \<Rightarrow> env" where
  "outage k = env0\<lparr>fail_at := Some k\<rparr>"

text \<open>The started day of a roster on which Bob was present the day before (day 9).\<close>

definition running_after_present :: sys where
  "running_after_present =
     running\<lparr>store := (store running)\<lparr>attendance := [mark ''m9'' ''id-bob'' 9 Present]\<rparr>\<rparr>"

text \<open>The started day after Alice has checked in.\<close>

definition alice_checked_in :: sys where
  "alice_checked_in = snd (api_attendance_record env0 ''C1'' running)"

text \<open>A roster of 40 students, 23 of them marked present on day 10, no report yet.\<close>

definition student_no :: "nat \<Rightarrow> student" where
  "student_no k =
     \<lparr>s_id = ''id-'' @ show_nat k, s_name = ''Student '' @ show_nat k,
      s_card_id = ''CARD'' @ show_nat k, s_parent_phone = [], s_parent_email = [],
      s_class = ''5A''\<rparr>"

definition school :: sys where
  "school =
     idle\<lparr>store :=
       \<lparr>students = map student_no [0..<40],
        attendance =
          map (\<lambda>k. mark (''a-'' @ show_nat k) (''id-'' @ show_nat k) 10 Present) [0..<23],
        notifications = [], daily_reports = []\<rparr>\<rparr>"

text \<open>A school with nobody on the roster.\<close>

definition no_students :: sys where
  "no_students =
     idle\<lparr>store := \<lparr>students = [], attendance = [], notifications = [], daily_reports = []\<rparr>\<rparr>"

section \<open>Properties of the evaluator\<close>

lemmas streak_eval =
  checkConsecutiveAbsences_def select_recent_def toISODate_def Date_of_column_def
  Date_of_string_def setDate_previous_def LocalTime_def UTC_def fixed_zone_def

lemma find_filter_hd:
  "find P xs = (case filter P xs of [] \<Rightarrow> None | x # _ \<Rightarrow> Some x)"
  by (induction xs) auto

lemma filter_date_sort_key:
  "filter (\<lambda>a. a_date a = cur) (sort_key (\<lambda>a. - a_date a) (xs :: attendance_row list))
     = filter (\<lambda>a. a_date a = cur) xs"
proof -
  have "filter (\<lambda>a. - a_date a = - cur) (sort_key (\<lambda>a. - a_date a) xs)
          = filter (\<lambda>a. - a_date a = - cur) xs"
    by (rule sort_key_stable)
  then show ?thesis by simp
qed

lemma filter_window_day:
  assumes "lo \<le> cur"
  shows "filter (\<lambda>a. a_date a = cur) (filter (\<lambda>a. a_student_id a = sid \<and> a_date a \<ge> lo) xs)
         = filter (\<lambda>a. a_student_id a = sid \<and> a_date a = cur) xs"
  using assms by (induction xs) auto

lemma sort_key_short: "length xs \<le> 1 \<Longrightarrow> sort_key f xs = xs"
  by (cases xs) auto

text \<open>
  Inside the SQL window, a day that carries at most one mark of the person shows
  \<^verbatim>\<open>rows.find\<close> that mark, whatever order the database gives to tied rows.
\<close>

lemma find_select_recent:
  assumes "CURDATE e - 5 \<le> cur" and "length (day_marks d sid cur) \<le> 1"
  shows "find (\<lambda>r. fst r = cur) (select_recent e d sid)
           = (case day_marks d sid cur of [] \<Rightarrow> None | s # _ \<Rightarrow> Some (cur, s))"
proof -
  let ?win = "filter (\<lambda>a. a_student_id a = sid \<and> a_date a \<ge> CURDATE e - 5) (attendance d)"
  have short: "length (select_attendance d sid cur) \<le> 1"
    using assms(2) by (simp add: day_marks_def)
  have "filter (\<lambda>a. a_date a = cur) (sort_key (\<lambda>a. - a_date a) (sort_key (tie_rank e) ?win))
          = sort_key (tie_rank e) (filter (\<lambda>a. a_date a = cur) ?win)"
    by (simp only: filter_date_sort_key filter_sort)
  also have "\<dots> = sort_key (tie_rank e) (select_attendance d sid cur)"
    by (simp only: filter_window_day [OF assms(1)] select_attendance_def)
  also have "\<dots> = select_attendance d sid cur"
    by (rule sort_key_short [OF short])
  finally have "filter (\<lambda>r. fst r = cur) (select_recent e d sid)
                  = map (\<lambda>a. (a_date a, a_status a)) (select_attendance d sid cur)"
    by (simp add: select_recent_def filter_map comp_def)
  moreover have "a_date z = cur" if "select_attendance d sid cur = z # zs" for z zs
  proof -
    have "z \<in> set (select_attendance d sid cur)" using that by simp
    then show ?thesis by (simp add: select_attendance_def)
  qed
  ultimately show ?thesis
    by (auto simp: find_filter_hd day_marks_def split: list.splits)
qed

lemma streak_loop_bounds:
  "n \<le> streak_loop z k t rows n \<and> streak_loop z k t rows n \<le> n + int k"
proof (induction k arbitrary: t n)
  case 0
  show ?case by simp
next
  case (Suc k)
  have step: "n + 1 \<le> streak_loop z k (setDate_previous z t) rows (n + 1)
                \<and> streak_loop z k (setDate_previous z t) rows (n + 1) \<le> n + 1 + int k"
    using Suc.IH [where t = "setDate_previous z t" and n = "n + 1"] by simp
  show ?case
    using step
    by (cases "find (\<lambda>r. toISODate (Date_of_column z (fst r)) = toISODate t) rows") auto
qed

lemma unique_marks_day:
  assumes "unique_marks d"
  shows "length (day_marks d sid day) \<le> 1"
proof -
  have "length (filter (\<lambda>a. a_student_id a = sid \<and> a_date a = day) xs) \<le> 1"
    if "distinct (map (\<lambda>a. (a_student_id a, a_date a)) xs)" for xs :: "attendance_row list"
    using that
  proof (induction xs)
    case Nil
    show ?case by simp
  next
    case (Cons a xs)
    show ?case
    proof (cases "a_student_id a = sid \<and> a_date a = day")
      case True
      then have "(sid, day) \<notin> set (map (\<lambda>a. (a_student_id a, a_date a)) xs)"
        using Cons.prems by auto
      then have "filter (\<lambda>a. a_student_id a = sid \<and> a_date a = day) xs = []"
        by (auto simp: filter_empty_conv)
      with True show ?thesis by simp
    next
      case False
      then show ?thesis using Cons by auto
    qed
  qed
  then show ?thesis
    using assms by (simp add: unique_marks_def day_marks_def select_attendance_def)
qed

subsection \<open>Zones at a fixed offset at or west of UTC\<close>

text \<open>
  In such a zone the driver's \<^verbatim>\<open>Date\<close> for a \<^verbatim>\<open>DATE\<close> column falls on that day in
  UTC, and \<^verbatim>\<open>setDate(getDate() - 1)\<close> goes back one day in UTC.
\<close>

lemma toISODate_Date_of_string [simp]: "toISODate (Date_of_string day) = day"
  by (simp add: toISODate_def Date_of_string_def)

lemma toISODate_Date_of_column:
  assumes "- 1440 < c" and "c \<le> 0"
  shows "toISODate (Date_of_column (fixed_zone c) day) = day"
proof -
  have "(- c) div 1440 = 0"
    using assms by simp
  then have "(- c + day * 1440) div 1440 = day"
    by simp
  then have "(day * 1440 - c) div 1440 = day"
    by (simp add: algebra_simps)
  then show ?thesis
    by (simp add: toISODate_def Date_of_column_def UTC_def fixed_zone_def)
qed

lemma setDate_previous_fixed_zone:
  "setDate_previous (fixed_zone c) (Date_of_string day) = Date_of_string (day - 1)"
  by (simp add: setDate_previous_def LocalTime_def UTC_def fixed_zone_def Date_of_string_def
      algebra_simps)

text \<open>
  The loop against the specification's walk, from any day of the SQL window and with
  any count so far, when no day carries more than one mark of the person.
\<close>

lemma streak_loop_spec_walk:
  assumes one: "\<And>day. length (day_marks d sid day) \<le> 1"
    and west: "- 1440 < c" "c \<le> 0"
    and window: "CURDATE e - 6 \<le> cur - int k"
  shows "streak_loop (fixed_zone c) k (Date_of_string cur) (select_recent e d sid) n
           = n + spec_walk (day_marks d sid) k cur"
  using window
proof (induction k arbitrary: cur n)
  case 0
  show ?case by simp
next
  case (Suc k)
  have inside: "CURDATE e - 5 \<le> cur" using Suc.prems by simp
  have found: "find (\<lambda>r. fst r = cur) (select_recent e d sid)
                 = (case day_marks d sid cur of [] \<Rightarrow> None | s # _ \<Rightarrow> Some (cur, s))"
    by (rule find_select_recent [OF inside one])
  have IH: "streak_loop (fixed_zone c) k (Date_of_string (cur - 1)) (select_recent e d sid) (n + 1)
              = n + 1 + spec_walk (day_marks d sid) k (cur - 1)"
    using Suc.IH [where cur = "cur - 1" and n = "n + 1"] Suc.prems by simp
  show ?case
  proof (cases "day_marks d sid cur")
    case Nil
    then show ?thesis
      using IH
      by (simp add: found toISODate_Date_of_column [OF west] setDate_previous_fixed_zone)
  next
    case (Cons m ms)
    have "ms = []" using one [of cur] Cons by simp
    with Cons have marks: "day_marks d sid cur = [m]" by simp
    show ?thesis
      using IH
      by (cases m)
        (simp_all add: found marks toISODate_Date_of_column [OF west]
          setDate_previous_fixed_zone)
  qed
qed

text \<open>
  Where the Node process runs on UTC or at a fixed offset west of it, the database's
  day is at most one day ahead of the UTC day, and the history keeps the data model's
  invariant (at most one mark per person and date), the evaluator's streak is the
  specification's walk as of the UTC day.
\<close>

lemma checkConsecutiveAbsences_spec_streak:
  assumes "tz e = fixed_zone c" and "- 1440 < c" and "c \<le> 0"
    and "CURDATE e \<le> getCurrentDate e + 1" and "unique_marks d"
  shows "checkConsecutiveAbsences e d sid = spec_streak d sid (getCurrentDate e)"
  unfolding checkConsecutiveAbsences_def spec_streak_def
  using streak_loop_spec_walk [of d sid c e "getCurrentDate e" 5 0] assms(1-4)
    unique_marks_day [OF assms(5)]
  by simp

lemma checkConsecutiveAbsences_spec_streak_example:
  "checkConsecutiveAbsences env0 present_two_days_ago ''p'' = spec_streak present_two_days_ago ''p'' 10
   \<and> spec_streak present_two_days_ago ''p'' 10 = 2"
proof -
  have u: "unique_marks present_two_days_ago"
    by (simp add: unique_marks_def present_two_days_ago_def history_def mark_def)
  have "spec_streak present_two_days_ago ''p'' 10 = 2"
    by (simp add: spec_streak_def eval_nat_numeral day_marks_def select_attendance_def
        present_two_days_ago_def history_def mark_def)
  then show ?thesis
    using checkConsecutiveAbsences_spec_streak [of env0 0 present_two_days_ago "''p''"] u
    by (simp add: env0_def)
qed

text \<open>
  C9. For every person and every attendance history the consecutive-absence evaluator
  returns an integer between 0 and 5: the streak never exceeds the length of the fixed
  5-day window, however many absent days precede it. This holds in every time zone, for
  every date of the database session and every order of tied rows.
\<close>

theorem checkConsecutiveAbsences_range:
  "0 \<le> checkConsecutiveAbsences e d sid \<and> checkConsecutiveAbsences e d sid \<le> 5"
  using streak_loop_bounds
    [of 0 "tz e" 5 "Date_of_string (getCurrentDate e)" "select_recent e d sid"]
  by (simp add: checkConsecutiveAbsences_def)

text \<open>
  C4 on the code. The Node process runs in Africa/Kigali, two hours east of UTC, and the
  person's only mark is a present mark on the as-of date, day 10; at most one mark per
  person and date. The walk the specification describes stops at once, streak 0. The
  evaluator returns 1: the \<^verbatim>\<open>Date\<close> the driver builds for the row is midnight of
  day 10 in Kigali, which \<^verbatim>\<open>toISOString\<close> puts on day 9 in UTC, so the loop finds no
  row for day 10, counts it as a day without a mark, and meets the present mark one
  iteration late.
\<close>

theorem present_today_east_of_utc:
  "unique_marks present_today
   \<and> day_marks present_today ''p'' 10 = [Present]
   \<and> getCurrentDate env_kigali = 10 \<and> CURDATE env_kigali = 10
   \<and> toISODate (Date_of_column (tz env_kigali) 10) = 9
   \<and> spec_streak present_today ''p'' 10 = 0
   \<and> checkConsecutiveAbsences env_kigali present_today ''p'' = 1"
  by (simp add: unique_marks_def day_marks_def select_attendance_def spec_streak_def
      streak_eval eval_nat_numeral present_today_def history_def mark_def env_kigali_def
      env0_def kigali_def)

text \<open>
  West of UTC the rows fall on their own day, but across the end of daylight saving
  time \<^verbatim>\<open>setDate(getDate() - 1)\<close> goes back 25 hours: as of 2026-11-03 in New York the
  loop visits November 3 and 2 and October 31, 30 and 29, never November 1. A present
  mark on November 1 is not seen, and the streak is 5 where the walk gives 2; an absent
  mark on November 1 is not counted, and the streak is 3 where the walk gives 4.
\<close>

lemma fall_back_skips_a_day:
  "toISODate (setDate_previous new_york (Date_of_string 20760)) = 20759
   \<and> toISODate (setDate_previous new_york (Date_of_string 20759)) = 20757
   \<and> unique_marks present_on_november_1
   \<and> spec_streak present_on_november_1 ''p'' 20760 = 2
   \<and> checkConsecutiveAbsences env_new_york present_on_november_1 ''p'' = 5"
  by (simp add: unique_marks_def day_marks_def select_attendance_def spec_streak_def
      streak_eval eval_nat_numeral present_on_november_1_def history_def mark_def
      env_new_york_def env0_def new_york_def)

lemma fall_back_loses_an_absence:
  "unique_marks absent_since_october_31
   \<and> spec_streak absent_since_october_31 ''p'' 20760 = 4
   \<and> checkConsecutiveAbsences env_new_york absent_since_october_31 ''p'' = 3"
  by (simp add: unique_marks_def day_marks_def select_attendance_def spec_streak_def
      streak_eval eval_nat_numeral absent_since_october_31_def history_def mark_def
      env_new_york_def env0_def new_york_def)

text \<open>
  East of UTC the histories of the specification's examples are read a day late too:
  with a present mark on day 6 and absent marks on days 7, 8 and 9 the streak as of
  day 10 is 5 in Kigali, and with a present mark on day 8 it is 3.
\<close>

lemma east_of_utc_examples:
  "checkConsecutiveAbsences env_kigali three_absent_after_present ''p'' = 5
   \<and> checkConsecutiveAbsences env_kigali present_two_days_ago ''p'' = 3"
  by (simp add: streak_eval eval_nat_numeral three_absent_after_present_def
      present_two_days_ago_def history_def mark_def env_kigali_def env0_def kigali_def)

text \<open>
  C5, as the code has it. The Node process runs on UTC or at a fixed offset west of it,
  and the database's day is at most one day ahead of the UTC day. A history in which
  the person has no mark on the as-of date and exactly one mark, absent, on each of
  the 3 days before it gives streak 4 when the day before those (as-of date - 4)
  carries a present mark, and 5 when that day has no mark or an absent one, since a day
  without a mark counts. When instead the day before the as-of date is absent and as-of
  date - 2 carries a present mark, the streak is 2.
\<close>

theorem checkConsecutiveAbsences_examples:
  assumes "tz e = fixed_zone c" and "- 1440 < c" and "c \<le> 0"
    and "getCurrentDate e = today" and "CURDATE e \<le> today + 1"
  shows "(day_marks d sid today = [] \<and> day_marks d sid (today - 1) = [Absent]
          \<and> day_marks d sid (today - 2) = [Absent] \<and> day_marks d sid (today - 3) = [Absent]
          \<and> day_marks d sid (today - 4) = [Present]
          \<longrightarrow> checkConsecutiveAbsences e d sid = 4)
       \<and> (day_marks d sid today = [] \<and> day_marks d sid (today - 1) = [Absent]
          \<and> day_marks d sid (today - 2) = [Absent] \<and> day_marks d sid (today - 3) = [Absent]
          \<and> (day_marks d sid (today - 4) = [] \<or> day_marks d sid (today - 4) = [Absent])
          \<longrightarrow> checkConsecutiveAbsences e d sid = 5)
       \<and> (day_marks d sid today = [] \<and> day_marks d sid (today - 1) = [Absent]
          \<and> day_marks d sid (today - 2) = [Present]
          \<longrightarrow> checkConsecutiveAbsences e d sid = 2)"
  using assms(5)
  by (auto simp: checkConsecutiveAbsences_def assms(1,4) eval_nat_numeral find_select_recent
      toISODate_Date_of_column [OF assms(2,3)] setDate_previous_fixed_zone)

theorem checkConsecutiveAbsences_examples_witness:
  "checkConsecutiveAbsences env0 three_absent_after_present ''p'' = 4
   \<and> checkConsecutiveAbsences env0 three_absent ''p'' = 5
   \<and> checkConsecutiveAbsences env0 present_two_days_ago ''p'' = 2
   \<and> checkConsecutiveAbsences (env0\<lparr>tz := fixed_zone (- 300)\<rparr>) present_two_days_ago ''p'' = 2"
  using checkConsecutiveAbsences_examples [of env0 0 10 three_absent_after_present "''p''"]
    checkConsecutiveAbsences_examples [of env0 0 10 three_absent "''p''"]
    checkConsecutiveAbsences_examples [of env0 0 10 present_two_days_ago "''p''"]
    checkConsecutiveAbsences_examples
      [of "env0\<lparr>tz := fixed_zone (- 300)\<rparr>" "- 300" 10 present_two_days_ago "''p''"]
  by (simp add: day_marks_def select_attendance_def three_absent_after_present_def
      three_absent_def present_two_days_ago_def history_def mark_def env0_def)

text \<open>
  Against C5 as stated: with an absent mark on each of the 3 days before the as-of date
  and no mark on the as-of date, the streak is 5, not 4, with the process on UTC and
  with the process in Kigali alike.
\<close>

theorem three_absent_streak_counterexample:
  "day_marks three_absent ''p'' 10 = [] \<and> day_marks three_absent ''p'' 9 = [Absent]
   \<and> day_marks three_absent ''p'' 8 = [Absent] \<and> day_marks three_absent ''p'' 7 = [Absent]
   \<and> getCurrentDate env0 = 10 \<and> tz env0 = fixed_zone 0
   \<and> checkConsecutiveAbsences env0 three_absent ''p'' = 5
   \<and> checkConsecutiveAbsences env_kigali three_absent ''p'' = 5
   \<and> checkConsecutiveAbsences env0 three_absent ''p'' \<noteq> 4"
  by (simp add: day_marks_def select_attendance_def streak_eval eval_nat_numeral
      three_absent_def history_def mark_def env0_def env_kigali_def kigali_def)

section \<open>Properties of the expiry callback\<close>

lemma execute_ok [simp]: "fail_at e = None \<Longrightarrow> execute e k outcome = outcome"
  by (simp add: execute_def)

lemma running_started: "snd (startNewDay env0 idle) = running"
  by (simp add: startNewDay_def clearAllTimers_def execute_def env0_def idle_def running_def
      startAbsenceTimer_def setTimeout_def alice_def bob_def)

text \<open>An error that reaches \<^verbatim>\<open>catch\<close> has skipped \<^verbatim>\<open>this.timers.delete\<close>.\<close>

lemma expiry_callback_error_timers:
  assumes "fst (expiry_callback e st s) = Some err"
  shows "timers (snd (expiry_callback e st s)) = timers s"
  using assms
  by (auto simp: expiry_callback_def expiry_continue_def Let_def
      split: sum.splits if_splits)

text \<open>
  C2 on the code. Bob's timeout fires in the state after \<^verbatim>\<open>startNewDay\<close> and the
  connection is lost at the existence check (statement 0), the insert of the absent mark
  (1), the streak query (2) or the insert of the notification (3). Each time the error
  is caught and Bob's entry is still in \<^verbatim>\<open>timers\<close>, with the handle of the timeout
  that has fired, so \<^verbatim>\<open>getActiveTimersCount()\<close> stays 2.
\<close>

theorem expiry_store_error_keeps_timer_entry:
  "fst (expiry_callback (outage 0) bob (clearTimeout 1 running)) = Some StoreUnavailable
   \<and> fst (expiry_callback (outage 1) bob (clearTimeout 1 running)) = Some StoreUnavailable
   \<and> fst (expiry_callback (outage 2) bob (clearTimeout 1 running)) = Some StoreUnavailable
   \<and> fst (expiry_callback (outage 3) bob (clearTimeout 1 running)) = Some StoreUnavailable
   \<and> timers (fire 1 (outage 0) running) = [(''id-alice'', 0), (''id-bob'', 1)]
   \<and> timers (fire 1 (outage 1) running) = [(''id-alice'', 0), (''id-bob'', 1)]
   \<and> timers (fire 1 (outage 2) running) = [(''id-alice'', 0), (''id-bob'', 1)]
   \<and> timers (fire 1 (outage 3) running) = [(''id-alice'', 0), (''id-bob'', 1)]
   \<and> map_of (pending (fire 1 (outage 0) running)) 1 = None"
proof -
  have logged: "fst (expiry_callback (outage k) bob (clearTimeout 1 running))
                  = Some StoreUnavailable" if "k < 4" for k
  proof -
    from that have "k = 0 \<or> k = 1 \<or> k = 2 \<or> k = 3" by auto
    then show ?thesis
      by (auto simp: expiry_callback_def expiry_continue_def execute_def outage_def env0_def
          running_def idle_def clearTimeout_def select_attendance_def insert_attendance_def
          insert_notification_def absence_notification_def absent_row_def bob_def alice_def
          streak_eval eval_nat_numeral Let_def)
  qed
  have kept: "timers (fire 1 (outage k) running) = [(''id-alice'', 0), (''id-bob'', 1)]"
    if "k < 4" for k
  proof -
    have "fire 1 (outage k) running
            = snd (expiry_callback (outage k) bob (clearTimeout 1 running))"
      by (simp add: fire_def running_def idle_def)
    then show ?thesis
      using expiry_callback_error_timers [OF logged [OF that]]
      by (simp add: clearTimeout_def running_def idle_def)
  qed
  have gone: "map_of (pending (fire 1 (outage 0) running)) 1 = None"
    by (simp add: fire_def expiry_callback_def execute_def outage_def env0_def running_def
        idle_def clearTimeout_def)
  show ?thesis
    using logged [of 0] logged [of 1] logged [of 2] logged [of 3]
      kept [of 0] kept [of 1] kept [of 2] kept [of 3] gone
    by simp
qed


lemma alice_checked_in_store:
  "store alice_checked_in
     = (store running)\<lparr>attendance := [present_row env0 alice]\<rparr>"
  by (simp add: alice_checked_in_def api_attendance_record_def select_students_by_card_def
      select_attendance_def insert_attendance_def present_row_def env0_def running_def
      idle_def alice_def bob_def clearStudentTimer_def clearTimeout_def)


section \<open>Properties of the day cycle\<close>

lemma fold_clearTimeout:
  "fold clearTimeout hs s = s\<lparr>pending := filter (\<lambda>p. fst p \<notin> set hs) (pending s)\<rparr>"
proof (induction hs arbitrary: s)
  case Nil
  show ?case by simp
next
  case (Cons h hs)
  have "filter (\<lambda>p. fst p \<notin> set hs) (AList.delete h (pending s))
          = filter (\<lambda>p. fst p \<notin> set (h # hs)) (pending s)"
    by (auto simp: AList.delete_eq intro: filter_cong)
  moreover have "fold clearTimeout (h # hs) s
      = (clearTimeout h s)\<lparr>pending := filter (\<lambda>p. fst p \<notin> set hs)
                                         (pending (clearTimeout h s))\<rparr>"
    using Cons.IH [of "clearTimeout h s"] by simp
  ultimately show ?case
    by (simp add: clearTimeout_def [of h s])
qed

lemma clearAllTimers_eq:
  "clearAllTimers s =
     s\<lparr>pending := filter (\<lambda>p. fst p \<notin> set (map snd (timers s)) \<and> Some (fst p) \<noteq> dayTimer s)
                     (pending s),
       timers := [], dayTimer := None\<rparr>"
proof (cases "dayTimer s")
  case None
  then show ?thesis
    by (simp add: clearAllTimers_def fold_clearTimeout)
next
  case (Some h)
  have "AList.delete h (filter (\<lambda>p. fst p \<notin> set (map snd (timers s))) (pending s))
          = filter (\<lambda>p. fst p \<notin> set (map snd (timers s)) \<and> Some (fst p) \<noteq> Some h) (pending s)"
    by (auto simp: AList.delete_eq intro: filter_cong)
  with Some show ?thesis
    by (simp add: clearAllTimers_def fold_clearTimeout clearTimeout_def)
qed

lemma update_new_key:
  "k \<notin> fst ` set al \<Longrightarrow> AList.update k v al = al @ [(k, v)]"
  by (induction al) auto

lemma fold_startAbsenceTimer:
  assumes "distinct (map s_id roster)"
    and "set (map s_id roster) \<inter> fst ` set (timers s) = {}"
  shows "fold startAbsenceTimer roster s =
           s\<lparr>pending := pending s
                  @ zip [next_handle s..<next_handle s + length roster]
                        (map AbsenceExpiry roster),
             next_handle := next_handle s + length roster,
             timers := timers s
                  @ zip (map s_id roster) [next_handle s..<next_handle s + length roster]\<rparr>"
  using assms
proof (induction roster arbitrary: s)
  case Nil
  show ?case by simp
next
  case (Cons st roster)
  let ?n = "next_handle s"
  let ?s1 = "s\<lparr>pending := pending s @ [(?n, AbsenceExpiry st)], next_handle := Suc ?n,
                timers := timers s @ [(s_id st, ?n)]\<rparr>"
  have new: "s_id st \<notin> fst ` set (timers s)"
    using Cons.prems by auto
  then have "map_of (timers s) (s_id st) = None"
    by (simp add: map_of_eq_None_iff)
  then have step: "startAbsenceTimer st s = ?s1"
    using new by (simp add: startAbsenceTimer_def setTimeout_def update_new_key)
  have "set (map s_id roster) \<inter> fst ` set (timers ?s1) = {}"
    using Cons.prems by auto
  then have "fold startAbsenceTimer roster ?s1 =
      ?s1\<lparr>pending := pending ?s1
               @ zip [next_handle ?s1..<next_handle ?s1 + length roster]
                     (map AbsenceExpiry roster),
           next_handle := next_handle ?s1 + length roster,
           timers := timers ?s1
               @ zip (map s_id roster) [next_handle ?s1..<next_handle ?s1 + length roster]\<rparr>"
    using Cons.IH [of ?s1] Cons.prems by simp
  moreover have "[?n..<Suc (?n + length roster)] = ?n # [Suc ?n..<Suc (?n + length roster)]"
    by (rule upt_conv_Cons) simp
  ultimately show ?case
    by (simp add: step del: upt_Suc)
qed

text \<open>The state after \<^verbatim>\<open>startNewDay\<close> when the roster loads, written out.\<close>

lemma startNewDay_eq:
  assumes "fail_at e \<noteq> Some 0" and "distinct (map s_id (students (store s)))"
  shows "startNewDay e s =
    (None,
     s\<lparr>pending :=
         filter (\<lambda>p. fst p \<notin> set (map snd (timers s)) \<and> Some (fst p) \<noteq> dayTimer s) (pending s)
         @ zip [next_handle s..<next_handle s + length (students (store s))]
               (map AbsenceExpiry (students (store s)))
         @ [(next_handle s + length (students (store s)), DayCompleted)],
       next_handle := Suc (next_handle s + length (students (store s))),
       timers := zip (map s_id (students (store s)))
                   [next_handle s..<next_handle s + length (students (store s))],
       dayTimer := Some (next_handle s + length (students (store s)))\<rparr>)"
proof -
  let ?s1 = "clearAllTimers s"
  have s1: "timers ?s1 = []" "store ?s1 = store s" "next_handle ?s1 = next_handle s"
    by (simp_all add: clearAllTimers_eq)
  have "fold startAbsenceTimer (students (store s)) ?s1 =
          ?s1\<lparr>pending := pending ?s1
                   @ zip [next_handle s..<next_handle s + length (students (store s))]
                         (map AbsenceExpiry (students (store s))),
               next_handle := next_handle s + length (students (store s)),
               timers := zip (map s_id (students (store s)))
                           [next_handle s..<next_handle s + length (students (store s))]\<rparr>"
    using fold_startAbsenceTimer [of "students (store s)" ?s1] assms(2) s1 by simp
  then show ?thesis
    using assms(1) s1
    by (simp add: startNewDay_def execute_def setTimeout_def Let_def)
       (simp add: clearAllTimers_eq)
qed

text \<open>
  C6. A day-cycle tick whose roster query succeeds, over a roster of N people with
  distinct ids, in a state whose handles were all issued earlier. Afterwards no handle
  that \<^verbatim>\<open>timers\<close> held before the tick is armed any more; \<^verbatim>\<open>timers\<close> has exactly one
  entry per roster member, N in all, in roster order; the N handles are distinct; and
  each member's handle is armed with that member's absence callback. If every absence
  timeout armed before the tick was held in \<^verbatim>\<open>timers\<close>, the absence timeouts armed
  after it are exactly the N new ones.
\<close>

theorem startNewDay_rearms_roster:
  assumes "fail_at e \<noteq> Some 0"
    and "distinct (map s_id (students (store s)))"
    and "handles_issued s"
  shows "fst (startNewDay e s) = None
       \<and> (\<forall>h \<in> set (map snd (timers s)). map_of (pending (snd (startNewDay e s))) h = None)
       \<and> map fst (timers (snd (startNewDay e s))) = map s_id (students (store s))
       \<and> length (timers (snd (startNewDay e s))) = length (students (store s))
       \<and> distinct (map snd (timers (snd (startNewDay e s))))
       \<and> (\<forall>st \<in> set (students (store s)).
             \<exists>h. map_of (timers (snd (startNewDay e s))) (s_id st) = Some h
                \<and> map_of (pending (snd (startNewDay e s))) h = Some (AbsenceExpiry st))
       \<and> (all_registered s
             \<longrightarrow> map fst (absence_timeouts (snd (startNewDay e s)))
                 = map snd (timers (snd (startNewDay e s))))"
proof -
  let ?roster = "students (store s)"
  let ?n = "next_handle s"
  let ?N = "length ?roster"
  let ?old = "filter (\<lambda>p. fst p \<notin> set (map snd (timers s)) \<and> Some (fst p) \<noteq> dayTimer s)
                (pending s)"
  let ?new = "zip [?n..<?n + ?N] (map AbsenceExpiry ?roster)"
  let ?s' = "snd (startNewDay e s)"
  note eq = startNewDay_eq [OF assms(1,2)]
  have pend: "pending ?s' = ?old @ ?new @ [(?n + ?N, DayCompleted)]"
    and tim: "timers ?s' = zip (map s_id ?roster) [?n..<?n + ?N]"
    by (simp_all add: eq)
  have issued: "h < ?n" if "h \<in> set (map snd (timers s)) \<union> set (map fst (pending s))" for h
    using assms(3) that by (auto simp: handles_issued_def list_all_iff)
  have old_keys: "fst ` set ?old \<subseteq> {h. h < ?n \<and> h \<notin> set (map snd (timers s))}"
    using issued by auto
  have new_keys: "map fst ?new = [?n..<?n + ?N]"
    by (simp add: map_fst_zip)
  have old_none: "map_of ?old h = None" if "?n \<le> h \<or> h \<in> set (map snd (timers s))" for h
    using old_keys that by (auto simp: map_of_eq_None_iff)
  have c1: "fst (startNewDay e s) = None"
    by (simp add: eq)
  have c2: "map_of (pending ?s') h = None" if "h \<in> set (map snd (timers s))" for h
  proof -
    have "h < ?n" using issued that by blast
    then have "h \<notin> fst ` set ?new" "h \<noteq> ?n + ?N"
      using new_keys by (auto dest!: set_zip_leftD)
    moreover have "h \<notin> fst ` set ?old" using that by force
    ultimately show ?thesis
      by (auto simp: pend map_of_eq_None_iff)
  qed
  have c3: "map fst (timers ?s') = map s_id ?roster"
    by (simp add: tim map_fst_zip)
  have c4: "length (timers ?s') = ?N"
    by (simp add: tim)
  have c5: "distinct (map snd (timers ?s'))"
    by (simp add: tim map_snd_zip)
  have c6: "\<exists>h. map_of (timers ?s') (s_id st) = Some h
              \<and> map_of (pending ?s') h = Some (AbsenceExpiry st)"
    if "st \<in> set ?roster" for st
  proof -
    from that obtain i where i: "i < ?N" "?roster ! i = st"
      by (auto simp: in_set_conv_nth)
    have "map_of (zip (map s_id ?roster) [?n..<?n + ?N]) (map s_id ?roster ! i)
            = Some ([?n..<?n + ?N] ! i)"
      using assms(2) i(1) by (intro map_of_zip_nth) simp_all
    then have t: "map_of (timers ?s') (s_id st) = Some (?n + i)"
      using i by (simp add: tim)
    have "map_of ?new ([?n..<?n + ?N] ! i) = Some (map AbsenceExpiry ?roster ! i)"
      using i(1) by (intro map_of_zip_nth) simp_all
    then have "map_of ?new (?n + i) = Some (AbsenceExpiry st)"
      using i by simp
    then have "map_of (pending ?s') (?n + i) = Some (AbsenceExpiry st)"
      using old_none [of "?n + i"] by (simp add: pend map_add_def)
    with t show ?thesis by blast
  qed
  have c7: "map fst (absence_timeouts ?s') = map snd (timers ?s')" if "all_registered s"
  proof -
    have "filter (\<lambda>p. snd p \<noteq> DayCompleted) ?old = []"
      using that
      by (fastforce simp: all_registered_def absence_timeouts_def list_all_iff
          filter_empty_conv)
    moreover have "filter (\<lambda>p. snd p \<noteq> DayCompleted) ?new = ?new"
      by (auto simp: filter_id_conv dest!: set_zip_rightD)
    ultimately have "absence_timeouts ?s' = ?new"
      by (simp add: absence_timeouts_def pend)
    then show ?thesis
      by (simp add: new_keys tim map_snd_zip)
  qed
  show ?thesis
    using c1 c2 c3 c4 c5 c6 c7 by blast
qed

theorem startNewDay_rearms_roster_witness:
  "handles_issued running \<and> all_registered running
   \<and> distinct (map s_id (students (store running)))
   \<and> map snd (timers running) = [0, 1]
   \<and> map_of (pending (snd (startNewDay env0 running))) 0 = None
   \<and> map_of (pending (snd (startNewDay env0 running))) 1 = None
   \<and> map fst (timers (snd (startNewDay env0 running))) = [''id-alice'', ''id-bob'']
   \<and> length (timers (snd (startNewDay env0 running))) = 2
   \<and> map fst (absence_timeouts (snd (startNewDay env0 running)))
       = map snd (timers (snd (startNewDay env0 running)))"
proof -
  have h: "fail_at env0 \<noteq> Some 0" "distinct (map s_id (students (store running)))"
    "handles_issued running"
    by (simp_all add: env0_def running_def idle_def alice_def bob_def handles_issued_def)
  have r: "all_registered running"
    by (simp add: all_registered_def absence_timeouts_def running_def idle_def)
  show ?thesis
    using startNewDay_rearms_roster [OF h] h r
    by (simp add: running_def idle_def alice_def bob_def)
qed

section \<open>Properties of the routes\<close>

lemma clearStudentTimer_store [simp]: "store (clearStudentTimer i s) = store s"
  by (simp add: clearStudentTimer_def clearTimeout_def split: option.splits)

lemma clearStudentTimer_timers: "map_of (timers (clearStudentTimer i s)) i = None"
  by (simp add: clearStudentTimer_def clearTimeout_def AList.delete_conv' split: option.splits)

lemma clearStudentTimer_pending:
  "map_of (timers s) i = Some h \<Longrightarrow> map_of (pending (clearStudentTimer i s)) h = None"
  by (simp add: clearStudentTimer_def clearTimeout_def AList.delete_conv')

text \<open>
  C7, as the code has it, with the store answering every statement. An empty or
  missing card id is a bad request, before any lookup. A card id that is not empty and
  belongs to no person gives \<open>NotFound\<close>. For the person the card belongs to: if a mark
  for (person, today) exists the response is \<open>AlreadyRecorded\<close> and the state is
  unchanged; otherwise, the generated id being unused, exactly one mark is appended,
  with status present and auto-marked false, the person's entry leaves \<^verbatim>\<open>timers\<close> and
  its timeout is no longer armed. A second check-in on the same date then gives
  \<open>AlreadyRecorded\<close>, changes nothing, and the store holds exactly one mark for the
  person and the date.
\<close>

theorem api_attendance_record_outcomes:
  assumes "fail_at e = None"
  shows "api_attendance_record e [] s = (BadRequest, s)
   \<and> (cardId \<noteq> [] \<and> select_students_by_card (store s) cardId = []
        \<longrightarrow> api_attendance_record e cardId s = (NotFound, s))
   \<and> (cardId \<noteq> [] \<and> select_students_by_card (store s) cardId = student # others
        \<and> select_attendance (store s) (s_id student) (getCurrentDate e) \<noteq> []
        \<longrightarrow> api_attendance_record e cardId s = (AlreadyRecorded, s))
   \<and> (cardId \<noteq> [] \<and> select_students_by_card (store s) cardId = student # others
        \<and> select_attendance (store s) (s_id student) (getCurrentDate e) = []
        \<and> uuid1 e \<notin> set (map a_id (attendance (store s)))
        \<longrightarrow> (let s' = snd (api_attendance_record e cardId s) in
               fst (api_attendance_record e cardId s) = SuccessStudent student
             \<and> store s' = (store s)\<lparr>attendance := attendance (store s) @ [present_row e student]\<rparr>
             \<and> a_student_id (present_row e student) = s_id student
             \<and> a_date (present_row e student) = getCurrentDate e
             \<and> a_status (present_row e student) = Present
             \<and> \<not> a_auto_marked (present_row e student)
             \<and> map_of (timers s') (s_id student) = None
             \<and> (\<forall>h. map_of (timers s) (s_id student) = Some h
                      \<longrightarrow> map_of (pending s') h = None)
             \<and> (\<forall>e'. fail_at e' = None \<and> getCurrentDate e' = getCurrentDate e
                      \<longrightarrow> api_attendance_record e' cardId s' = (AlreadyRecorded, s'))
             \<and> length (select_attendance (store s') (s_id student) (getCurrentDate e)) = 1))"
proof -
  have bad: "api_attendance_record e [] s = (BadRequest, s)"
    by (simp add: api_attendance_record_def)
  have unknown: "api_attendance_record e cardId s = (NotFound, s)"
    if "cardId \<noteq> []" "select_students_by_card (store s) cardId = []"
    using that assms by (simp add: api_attendance_record_def)
  have already: "api_attendance_record e' cardId t = (AlreadyRecorded, t)"
    if "cardId \<noteq> []" "select_students_by_card (store t) cardId = student # others"
      "select_attendance (store t) (s_id student) (getCurrentDate e') \<noteq> []"
      "fail_at e' = None" for e' t
    using that by (simp add: api_attendance_record_def)
  have recorded: "let s' = snd (api_attendance_record e cardId s) in
               fst (api_attendance_record e cardId s) = SuccessStudent student
             \<and> store s' = (store s)\<lparr>attendance := attendance (store s) @ [present_row e student]\<rparr>
             \<and> a_student_id (present_row e student) = s_id student
             \<and> a_date (present_row e student) = getCurrentDate e
             \<and> a_status (present_row e student) = Present
             \<and> \<not> a_auto_marked (present_row e student)
             \<and> map_of (timers s') (s_id student) = None
             \<and> (\<forall>h. map_of (timers s) (s_id student) = Some h
                      \<longrightarrow> map_of (pending s') h = None)
             \<and> (\<forall>e'. fail_at e' = None \<and> getCurrentDate e' = getCurrentDate e
                      \<longrightarrow> api_attendance_record e' cardId s' = (AlreadyRecorded, s'))
             \<and> length (select_attendance (store s') (s_id student) (getCurrentDate e)) = 1"
    if card: "cardId \<noteq> []"
      and found: "select_students_by_card (store s) cardId = student # others"
      and none: "select_attendance (store s) (s_id student) (getCurrentDate e) = []"
      and fresh: "uuid1 e \<notin> set (map a_id (attendance (store s)))"
  proof -
    let ?d1 = "(store s)\<lparr>attendance := attendance (store s) @ [present_row e student]\<rparr>"
    let ?s' = "clearStudentTimer (s_id student) (s\<lparr>store := ?d1\<rparr>)"
    have "student \<in> set (select_students_by_card (store s) cardId)"
      using found by simp
    then have fk: "s_id student \<in> set (map s_id (students (store s)))"
      by (auto simp: select_students_by_card_def)
    have ins: "insert_attendance (store s) (present_row e student) = Inr ?d1"
      using fk fresh by (simp add: insert_attendance_def present_row_def)
    have run: "api_attendance_record e cardId s = (SuccessStudent student, ?s')"
      using card found none ins assms by (simp add: api_attendance_record_def)
    have marks: "select_attendance (store ?s') (s_id student) (getCurrentDate e)
                   = [present_row e student]"
      using none by (simp add: select_attendance_def present_row_def)
    have card': "select_students_by_card (store ?s') cardId = student # others"
      using found by (simp add: select_students_by_card_def)
    have again: "api_attendance_record e' cardId ?s' = (AlreadyRecorded, ?s')"
      if "fail_at e' = None" "getCurrentDate e' = getCurrentDate e" for e'
      using already [of ?s' e'] card card' marks that by simp
    have cancelled: "map_of (pending ?s') h = None"
      if "map_of (timers s) (s_id student) = Some h" for h
      using clearStudentTimer_pending [of "s\<lparr>store := ?d1\<rparr>" "s_id student" h] that by simp
    show ?thesis
      using again cancelled marks clearStudentTimer_timers [of "s_id student" "s\<lparr>store := ?d1\<rparr>"]
      by (simp add: run Let_def present_row_def)
  qed
  show ?thesis
    using bad unknown already [of s e] recorded assms by blast
qed

theorem api_attendance_record_outcomes_witness:
  "api_attendance_record env0 ''C9'' running = (NotFound, running)
   \<and> fst (api_attendance_record env0 ''C1'' running) = SuccessStudent alice
   \<and> store alice_checked_in
       = (store running)\<lparr>attendance := attendance (store running) @ [present_row env0 alice]\<rparr>
   \<and> map_of (timers running) (s_id alice) = Some 0
   \<and> map_of (timers alice_checked_in) (s_id alice) = None
   \<and> map_of (pending alice_checked_in) 0 = None
   \<and> api_attendance_record (env0\<lparr>uuid1 := ''u3''\<rparr>) ''C1'' alice_checked_in
       = (AlreadyRecorded, alice_checked_in)
   \<and> length (select_attendance (store alice_checked_in) (s_id alice) (getCurrentDate env0)) = 1"
proof -
  have env: "fail_at env0 = None"
    by (simp add: env0_def)
  have unknown: "api_attendance_record env0 ''C9'' running = (NotFound, running)"
    using api_attendance_record_outcomes
      [OF env, where s = running and cardId = "''C9''"]
    by (simp add: select_students_by_card_def running_def idle_def alice_def bob_def)
  have h: "''C1'' \<noteq> []"
    "select_students_by_card (store running) ''C1'' = [alice]"
    "select_attendance (store running) (s_id alice) (getCurrentDate env0) = []"
    "uuid1 env0 \<notin> set (map a_id (attendance (store running)))"
    by (simp_all add: select_students_by_card_def select_attendance_def running_def
        idle_def alice_def bob_def)
  have e': "fail_at (env0\<lparr>uuid1 := ''u3''\<rparr>) = None
            \<and> getCurrentDate (env0\<lparr>uuid1 := ''u3''\<rparr>) = getCurrentDate env0"
    by (simp add: env0_def)
  have t: "map_of (timers running) (s_id alice) = Some 0"
    by (simp add: running_def alice_def)
  show ?thesis
    using api_attendance_record_outcomes
      [OF env, where s = running and cardId = "''C1''" and student = alice and others = "[]"]
      h e' t unknown
    unfolding alice_checked_in_def Let_def by blast
qed

text \<open>
  Against C7 as stated: no person has the empty card id, and the check-in with it is
  answered with the 400 response, not with \<open>NotFound\<close>.
\<close>

theorem empty_card_id_counterexample:
  "select_students_by_card (store running) [] = []
   \<and> api_attendance_record env0 [] running = (BadRequest, running)
   \<and> fst (api_attendance_record env0 [] running) \<noteq> NotFound"
  by (simp add: api_attendance_record_def select_students_by_card_def running_def idle_def
      alice_def bob_def)

section \<open>Removal of a person\<close>

lemma insert_attendance_no_trace:
  "insert_attendance d row = Inr d' \<Longrightarrow> no_trace i d \<Longrightarrow> no_trace i d'"
  by (auto simp: insert_attendance_def no_trace_def split: if_splits)

lemma insert_notification_no_trace:
  "insert_notification d row = Inr d' \<Longrightarrow> no_trace i d \<Longrightarrow> no_trace i d'"
  by (auto simp: insert_notification_def no_trace_def split: if_splits)

lemma delete_student_no_trace:
  "no_trace i d \<Longrightarrow> no_trace i (snd (delete_student d j))"
  by (auto simp: delete_student_def no_trace_def)

lemma execute_Inr:
  "execute e k outcome = Inr x \<Longrightarrow> outcome = Inr x"
  by (simp add: execute_def split: if_splits)

lemma expiry_callback_no_trace:
  assumes "no_trace i (store s)"
  shows "no_trace i (store (snd (expiry_callback e st s)))"
proof -
  have cont: "no_trace i (store (snd (expiry_continue e st existing s)))" for existing
    using assms
    by (auto simp: expiry_continue_def Let_def split: sum.splits
        dest!: execute_Inr dest: insert_attendance_no_trace insert_notification_no_trace)
  show ?thesis
    using assms cont by (simp add: expiry_callback_def split: sum.splits)
qed

lemma store_clearTimeout [simp]: "store (clearTimeout h s) = store s"
  by (simp add: clearTimeout_def)

lemma store_startAbsenceTimer [simp]: "store (startAbsenceTimer st s) = store s"
  by (simp add: startAbsenceTimer_def setTimeout_def clearTimeout_def split: option.splits)

lemma store_fold_startAbsenceTimer [simp]:
  "store (fold startAbsenceTimer roster s) = store s"
  by (induction roster arbitrary: s) simp_all

lemma store_startNewDay [simp]: "store (snd (startNewDay e s)) = store s"
  by (simp add: startNewDay_def clearAllTimers_eq setTimeout_def Let_def split: sum.splits)

lemma fire_no_trace:
  "no_trace i (store s) \<Longrightarrow> no_trace i (store (fire h e s))"
  by (simp add: fire_def Let_def expiry_callback_no_trace
      split: option.splits callback.splits)

lemma api_attendance_record_no_trace:
  assumes "no_trace i (store s)"
  shows "no_trace i (store (snd (api_attendance_record e cardId s)))"
  using assms
  by (auto simp: api_attendance_record_def Let_def split: sum.splits list.splits
      dest!: execute_Inr dest: insert_attendance_no_trace)

lemma api_manual_absent_no_trace:
  assumes "no_trace i (store s)"
  shows "no_trace i (store (snd (api_manual_absent e studentId s)))"
  using assms
  by (auto simp: api_manual_absent_def Let_def split: sum.splits list.splits
      dest!: execute_Inr dest: insert_attendance_no_trace)

lemma api_students_delete_no_trace:
  assumes "no_trace i (store s)"
  shows "no_trace i (store (snd (api_students_delete e j s)))"
  using assms delete_student_no_trace [of i "store s" j]
  by (auto simp: api_students_delete_def Let_def split: sum.splits prod.splits
      dest!: execute_Inr)

lemma run_no_trace:
  "no_trace i (store s) \<Longrightarrow> no_trace i (store (run evs s))"
  unfolding run_def
proof (induction evs arbitrary: s)
  case Nil
  then show ?case by simp
next
  case (Cons ev evs)
  have "no_trace i (store (step ev s))"
    using Cons.prems
    by (cases ev)
       (simp_all add: fire_no_trace api_attendance_record_no_trace api_manual_absent_no_trace
          api_students_delete_no_trace)
  then show ?case
    using Cons.IH by simp
qed

text \<open>
  C8. With the store answering the \<^verbatim>\<open>DELETE\<close>: a person id that is not on the roster
  gives \<open>NotFound\<close> and changes nothing. Otherwise the person is deleted together with
  that person's attendance marks and notifications, the person's entry leaves
  \<^verbatim>\<open>timers\<close> and its timeout is no longer armed; and after any sequence of timeouts
  firing, check-ins, manual absences and removals, with or without store errors, the
  store holds no mark of that person.
\<close>

theorem api_students_delete_outcomes:
  assumes "fail_at e = None"
  shows "(i \<notin> set (map s_id (students (store s)))
            \<longrightarrow> api_students_delete e i s = (NotFound, s))
       \<and> (i \<in> set (map s_id (students (store s)))
            \<longrightarrow> (let s' = snd (api_students_delete e i s) in
                   fst (api_students_delete e i s) = Success
                 \<and> students (store s') = filter (\<lambda>st. s_id st \<noteq> i) (students (store s))
                 \<and> attendance (store s')
                     = filter (\<lambda>a. a_student_id a \<noteq> i) (attendance (store s))
                 \<and> notifications (store s')
                     = filter (\<lambda>n. n_student_id n \<noteq> i) (notifications (store s))
                 \<and> daily_reports (store s') = daily_reports (store s)
                 \<and> map_of (timers s') i = None
                 \<and> (\<forall>h. map_of (timers s) i = Some h \<longrightarrow> map_of (pending s') h = None)
                 \<and> (\<forall>evs. i \<notin> set (map a_student_id (attendance (store (run evs s')))))))"
proof -
  have absent: "api_students_delete e i s = (NotFound, s)"
    if "i \<notin> set (map s_id (students (store s)))"
    using that assms by (simp add: api_students_delete_def delete_student_def)
  have present: "let s' = snd (api_students_delete e i s) in
                   fst (api_students_delete e i s) = Success
                 \<and> students (store s') = filter (\<lambda>st. s_id st \<noteq> i) (students (store s))
                 \<and> attendance (store s')
                     = filter (\<lambda>a. a_student_id a \<noteq> i) (attendance (store s))
                 \<and> notifications (store s')
                     = filter (\<lambda>n. n_student_id n \<noteq> i) (notifications (store s))
                 \<and> daily_reports (store s') = daily_reports (store s)
                 \<and> map_of (timers s') i = None
                 \<and> (\<forall>h. map_of (timers s) i = Some h \<longrightarrow> map_of (pending s') h = None)
                 \<and> (\<forall>evs. i \<notin> set (map a_student_id (attendance (store (run evs s')))))"
    if member: "i \<in> set (map s_id (students (store s)))"
  proof -
    let ?d1 = "(store s)\<lparr>students := filter (\<lambda>st. s_id st \<noteq> i) (students (store s)),
                 attendance := filter (\<lambda>a. a_student_id a \<noteq> i) (attendance (store s)),
                 notifications := filter (\<lambda>n. n_student_id n \<noteq> i) (notifications (store s))\<rparr>"
    let ?s' = "clearStudentTimer i (s\<lparr>store := ?d1\<rparr>)"
    have "filter (\<lambda>st. s_id st = i) (students (store s)) \<noteq> []"
      using member by (auto simp: filter_empty_conv)
    then have del: "api_students_delete e i s = (Success, ?s')"
      using member assms by (simp add: api_students_delete_def delete_student_def Let_def)
    have "no_trace i (store ?s')"
      by (auto simp: no_trace_def)
    then have never: "i \<notin> set (map a_student_id (attendance (store (run evs ?s'))))" for evs
      using run_no_trace [of i ?s' evs] by (simp add: no_trace_def)
    have cancelled: "map_of (pending ?s') h = None" if "map_of (timers s) i = Some h" for h
      using clearStudentTimer_pending [of "s\<lparr>store := ?d1\<rparr>" i h] that by simp
    show ?thesis
      using never cancelled clearStudentTimer_timers [of i "s\<lparr>store := ?d1\<rparr>"]
      by (simp add: del Let_def)
  qed
  show ?thesis
    using absent present by blast
qed

theorem api_students_delete_outcomes_witness:
  "api_students_delete env0 ''id-zoe'' running = (NotFound, running)
   \<and> fst (api_students_delete env0 ''id-bob'' running_after_present) = Success
   \<and> attendance (store running_after_present) = [mark ''m9'' ''id-bob'' 9 Present]
   \<and> attendance (store (snd (api_students_delete env0 ''id-bob'' running_after_present))) = []
   \<and> map_of (timers running_after_present) ''id-bob'' = Some 1
   \<and> map_of (timers (snd (api_students_delete env0 ''id-bob'' running_after_present))) ''id-bob''
       = None
   \<and> map_of (pending (snd (api_students_delete env0 ''id-bob'' running_after_present))) 1 = None
   \<and> ''id-bob'' \<notin> set (map a_student_id (attendance (store
         (run [Fire 1 env0, Fire 0 env0, Fire 2 env0, CheckIn ''C2'' env0,
              ManualAbsent ''id-bob'' env0]
            (snd (api_students_delete env0 ''id-bob'' running_after_present))))))"
proof -
  have env: "fail_at env0 = None"
    by (simp add: env0_def)
  have h: "''id-zoe'' \<notin> set (map s_id (students (store running)))"
    "''id-bob'' \<in> set (map s_id (students (store running_after_present)))"
    "attendance (store running_after_present) = [mark ''m9'' ''id-bob'' 9 Present]"
    "filter (\<lambda>a. a_student_id a \<noteq> ''id-bob'') (attendance (store running_after_present)) = []"
    "map_of (timers running_after_present) ''id-bob'' = Some 1"
    by (simp_all add: running_after_present_def running_def idle_def alice_def bob_def mark_def)
  show ?thesis
    using api_students_delete_outcomes [OF env, of "''id-zoe''" running]
      api_students_delete_outcomes [OF env, of "''id-bob''" running_after_present] h
    unfolding Let_def by metis
qed

section \<open>The states a run can reach\<close>

lemma timers_wf_iff:
  "timers_wf s \<longleftrightarrow>
     (\<forall>h \<in> snd ` set (timers s). h < next_handle s)
   \<and> (\<forall>h \<in> fst ` set (pending s). h < next_handle s)
   \<and> distinct (map fst (pending s))
   \<and> (\<forall>h st. (h, AbsenceExpiry st) \<in> set (pending s)
          \<longrightarrow> map_of (timers s) (s_id st) = Some h)"
proof -
  have "list_all (\<lambda>p. case snd p of
                          AbsenceExpiry st \<Rightarrow> map_of (timers s) (s_id st) = Some (fst p)
                        | DayCompleted \<Rightarrow> True) (pending s)
        \<longleftrightarrow> (\<forall>h st. (h, AbsenceExpiry st) \<in> set (pending s)
                  \<longrightarrow> map_of (timers s) (s_id st) = Some h)"
    (is "?L \<longleftrightarrow> ?R")
  proof
    assume ?L
    then show ?R by (force simp: list_all_iff)
  next
    assume r: ?R
    have "case snd p of AbsenceExpiry st \<Rightarrow> map_of (timers s) (s_id st) = Some (fst p)
          | DayCompleted \<Rightarrow> True" if "p \<in> set (pending s)" for p
    proof (cases "snd p")
      case (AbsenceExpiry st)
      then have "p = (fst p, AbsenceExpiry st)" by (metis prod.collapse)
      then have "(fst p, AbsenceExpiry st) \<in> set (pending s)" using that by simp
      then show ?thesis using r AbsenceExpiry by simp
    next
      case DayCompleted
      then show ?thesis by simp
    qed
    then show ?L by (simp add: list_all_iff)
  qed
  then show ?thesis
    by (auto simp: timers_wf_def handles_issued_def list_all_iff)
qed

lemma timers_wf_all_registered: "timers_wf s \<Longrightarrow> all_registered s"
proof -
  assume wf: "timers_wf s"
  have "fst p \<in> snd ` set (timers s)" if mem: "p \<in> set (pending s)" and cb: "snd p \<noteq> DayCompleted" for p
  proof -
    obtain h st where p: "p = (h, AbsenceExpiry st)"
      using cb by (cases p, cases "snd p") auto
    then have "map_of (timers s) (s_id st) = Some h"
      using wf mem by (simp add: timers_wf_iff)
    then have "(s_id st, h) \<in> set (timers s)" by (rule map_of_SomeD)
    then show ?thesis using p by force
  qed
  then show ?thesis
    by (auto simp: all_registered_def absence_timeouts_def list_all_iff)
qed

lemma timers_wf_handles_issued: "timers_wf s \<Longrightarrow> handles_issued s"
  by (simp add: timers_wf_def)

lemma timers_wf_idle: "timers_wf idle"
  by (simp add: timers_wf_def handles_issued_def idle_def)

lemma timers_wf_store [simp]: "timers_wf (s\<lparr>store := d\<rparr>) = timers_wf s"
  by (simp add: timers_wf_iff)

lemma set_delete_subset: "set (AList.delete k al) \<subseteq> set al"
  by (auto simp: AList.delete_eq)

lemma delete_key_gone: "(k, v) \<notin> set (AList.delete k al)"
  by (auto simp: AList.delete_eq)

lemma snd_update_subset: "snd ` set (AList.update k v al) \<subseteq> insert v (snd ` set al)"
  by (induction al) auto

lemma timers_wf_clearTimeout: "timers_wf s \<Longrightarrow> timers_wf (clearTimeout h s)"
  using set_delete_subset [of h "pending s"]
  by (fastforce simp: timers_wf_iff clearTimeout_def distinct_delete)

text \<open>A timer entry may go when no armed absence timeout belongs to that person.\<close>

lemma timers_wf_delete_timer:
  assumes "timers_wf s"
    and "\<And>h st. (h, AbsenceExpiry st) \<in> set (pending s) \<Longrightarrow> s_id st \<noteq> i"
  shows "timers_wf (s\<lparr>timers := AList.delete i (timers s)\<rparr>)"
  using assms set_delete_subset [of i "timers s"]
  by (fastforce simp: timers_wf_iff AList.delete_conv')

lemma clearTimeout_no_entry_left:
  assumes "timers_wf s" and "map_of (timers s) i = Some h"
    and "(h', AbsenceExpiry st) \<in> set (pending (clearTimeout h s))"
  shows "s_id st \<noteq> i"
proof
  assume "s_id st = i"
  have "(h', AbsenceExpiry st) \<in> set (pending s)"
    using assms(3) set_delete_subset [of h "pending s"] by (auto simp: clearTimeout_def)
  then have "map_of (timers s) (s_id st) = Some h'"
    using assms(1) by (simp add: timers_wf_iff)
  then have "h' = h" using assms(2) \<open>s_id st = i\<close> by simp
  then show False
    using assms(3) delete_key_gone [of h "AbsenceExpiry st" "pending s"]
    by (simp add: clearTimeout_def)
qed

lemma timers_wf_clearStudentTimer: "timers_wf s \<Longrightarrow> timers_wf (clearStudentTimer i s)"
proof (cases "map_of (timers s) i")
  case None
  then show "timers_wf s \<Longrightarrow> ?thesis" by (simp add: clearStudentTimer_def)
next
  case (Some h)
  assume wf: "timers_wf s"
  have "timers_wf ((clearTimeout h s)\<lparr>timers := AList.delete i (timers (clearTimeout h s))\<rparr>)"
    using timers_wf_clearTimeout [OF wf] clearTimeout_no_entry_left [OF wf Some]
    by (intro timers_wf_delete_timer) auto
  then show ?thesis
    using Some by (simp add: clearStudentTimer_def clearTimeout_def)
qed


lemma timers_wf_setTimeout_day:
  "timers_wf s \<Longrightarrow> timers_wf (snd (setTimeout DayCompleted s))"
  by (fastforce simp: timers_wf_iff setTimeout_def)

lemma timers_wf_arm:
  assumes "timers_wf s"
    and "\<And>h st'. (h, AbsenceExpiry st') \<in> set (pending s) \<Longrightarrow> s_id st' \<noteq> s_id st"
  shows "timers_wf (s\<lparr>pending := pending s @ [(next_handle s, AbsenceExpiry st)],
                      next_handle := Suc (next_handle s),
                      timers := AList.update (s_id st) (next_handle s) (timers s)\<rparr>)"
proof -
  have fresh: "next_handle s \<notin> fst ` set (pending s)"
    using assms(1) by (auto simp: timers_wf_iff)
  show ?thesis
    unfolding timers_wf_iff
    using assms snd_update_subset [of "s_id st" "next_handle s" "timers s"] fresh
    by (fastforce simp: timers_wf_iff AList.update_conv' less_Suc_eq)
qed

lemma timers_wf_startAbsenceTimer:
  assumes "timers_wf s"
  shows "timers_wf (startAbsenceTimer st s)"
proof (cases "map_of (timers s) (s_id st)")
  case None
  have "s_id st' \<noteq> s_id st" if "(h, AbsenceExpiry st') \<in> set (pending s)" for h st'
  proof
    assume "s_id st' = s_id st"
    moreover have "map_of (timers s) (s_id st') = Some h"
      using assms that by (simp add: timers_wf_iff)
    ultimately show False using None by simp
  qed
  then have "timers_wf (s\<lparr>pending := pending s @ [(next_handle s, AbsenceExpiry st)],
                           next_handle := Suc (next_handle s),
                           timers := AList.update (s_id st) (next_handle s) (timers s)\<rparr>)"
    using assms by (intro timers_wf_arm) auto
  then show ?thesis
    using None by (simp add: startAbsenceTimer_def setTimeout_def)
next
  case (Some h)
  let ?s1 = "clearTimeout h s"
  have "timers_wf (?s1\<lparr>pending := pending ?s1 @ [(next_handle ?s1, AbsenceExpiry st)],
                       next_handle := Suc (next_handle ?s1),
                       timers := AList.update (s_id st) (next_handle ?s1) (timers ?s1)\<rparr>)"
    using timers_wf_clearTimeout [OF assms] clearTimeout_no_entry_left [OF assms Some]
    by (intro timers_wf_arm) auto
  then show ?thesis
    using Some by (simp add: startAbsenceTimer_def setTimeout_def clearTimeout_def)
qed

lemma timers_wf_fold_startAbsenceTimer:
  "timers_wf s \<Longrightarrow> timers_wf (fold startAbsenceTimer roster s)"
  by (induction roster arbitrary: s) (simp_all add: timers_wf_startAbsenceTimer)

lemma timers_wf_clearAllTimers: "timers_wf s \<Longrightarrow> timers_wf (clearAllTimers s)"
proof -
  assume wf: "timers_wf s"
  have "h \<in> snd ` set (timers s)" if "(h, AbsenceExpiry st) \<in> set (pending s)" for h st
  proof -
    have "map_of (timers s) (s_id st) = Some h" using wf that by (simp add: timers_wf_iff)
    then have "(s_id st, h) \<in> set (timers s)" by (rule map_of_SomeD)
    then show ?thesis by force
  qed
  then show ?thesis
    using wf by (fastforce simp: timers_wf_iff clearAllTimers_eq distinct_map_filter)
qed

lemma timers_wf_startNewDay: "timers_wf s \<Longrightarrow> timers_wf (snd (startNewDay e s))"
proof -
  assume "timers_wf s"
  then have "timers_wf (fold startAbsenceTimer (students (store (clearAllTimers s)))
                          (clearAllTimers s))"
    by (intro timers_wf_fold_startAbsenceTimer timers_wf_clearAllTimers)
  then have "timers_wf (snd (setTimeout DayCompleted
               (fold startAbsenceTimer (students (store (clearAllTimers s))) (clearAllTimers s))))"
    by (rule timers_wf_setTimeout_day)
  moreover have "timers_wf (t\<lparr>dayTimer := x\<rparr>) = timers_wf t" for t x
    by (simp add: timers_wf_iff)
  ultimately show ?thesis
    using timers_wf_clearAllTimers [OF \<open>timers_wf s\<close>]
    by (simp add: startNewDay_def execute_def Let_def split_beta)
qed

lemma expiry_callback_frame:
  "pending (snd (expiry_callback e st s)) = pending s
   \<and> next_handle (snd (expiry_callback e st s)) = next_handle s
   \<and> (timers (snd (expiry_callback e st s)) = timers s
      \<or> timers (snd (expiry_callback e st s)) = AList.delete (s_id st) (timers s))"
  by (auto simp: expiry_callback_def expiry_continue_def Let_def split: sum.splits)

lemma timers_wf_frame:
  assumes "pending t = pending s" "next_handle t = next_handle s" "timers t = timers s"
  shows "timers_wf t = timers_wf s"
  using assms by (simp add: timers_wf_iff)

lemma timers_wf_fire: "timers_wf s \<Longrightarrow> timers_wf (fire h e s)"
proof (cases "map_of (pending s) h")
  case None
  then show "timers_wf s \<Longrightarrow> ?thesis" by (simp add: fire_def)
next
  case (Some cb)
  assume wf: "timers_wf s"
  let ?s1 = "clearTimeout h s"
  have wf1: "timers_wf ?s1" using wf by (rule timers_wf_clearTimeout)
  show ?thesis
  proof (cases cb)
    case DayCompleted
    then show ?thesis
      using Some wf1 by (simp add: fire_def timers_wf_startNewDay)
  next
    case (AbsenceExpiry st)
    let ?r = "snd (expiry_callback e st ?s1)"
    have "(h, AbsenceExpiry st) \<in> set (pending s)"
      using Some AbsenceExpiry by (simp add: map_of_SomeD)
    then have reg: "map_of (timers s) (s_id st) = Some h"
      using wf by (simp add: timers_wf_iff)
    have none: "s_id st' \<noteq> s_id st" if "(h', AbsenceExpiry st') \<in> set (pending ?s1)" for h' st'
      using clearTimeout_no_entry_left [OF wf reg that] .
    have "timers_wf (?s1\<lparr>timers := AList.delete (s_id st) (timers ?s1)\<rparr>)"
      using wf1 none by (intro timers_wf_delete_timer) auto
    moreover have "timers_wf ?r = timers_wf ?s1
        \<or> timers_wf ?r = timers_wf (?s1\<lparr>timers := AList.delete (s_id st) (timers ?s1)\<rparr>)"
      using expiry_callback_frame [of e st ?s1]
        timers_wf_frame [of ?r ?s1]
        timers_wf_frame [of ?r "?s1\<lparr>timers := AList.delete (s_id st) (timers ?s1)\<rparr>"]
      by auto
    ultimately have "timers_wf ?r" using wf1 by blast
    then show ?thesis
      using Some AbsenceExpiry by (simp add: fire_def)
  qed
qed

lemma timers_wf_api_attendance_record:
  "timers_wf s \<Longrightarrow> timers_wf (snd (api_attendance_record e cardId s))"
  by (auto simp: api_attendance_record_def Let_def timers_wf_clearStudentTimer
      split: sum.splits list.splits)

lemma timers_wf_api_manual_absent:
  "timers_wf s \<Longrightarrow> timers_wf (snd (api_manual_absent e studentId s))"
  by (auto simp: api_manual_absent_def Let_def timers_wf_clearStudentTimer
      split: sum.splits list.splits)

lemma timers_wf_api_students_delete:
  "timers_wf s \<Longrightarrow> timers_wf (snd (api_students_delete e i s))"
  by (auto simp: api_students_delete_def Let_def timers_wf_clearStudentTimer
      split: sum.splits prod.splits)

lemma run_timers_wf: "timers_wf s \<Longrightarrow> timers_wf (run evs s)"
  unfolding run_def
proof (induction evs arbitrary: s)
  case Nil
  then show ?case by simp
next
  case (Cons ev evs)
  have "timers_wf (step ev s)"
    using Cons.prems
    by (cases ev)
       (simp_all add: timers_wf_fire timers_wf_api_attendance_record
          timers_wf_api_manual_absent timers_wf_api_students_delete)
  then show ?case
    using Cons.IH by simp
qed


lemma insert_attendance_students:
  "insert_attendance d row = Inr d' \<Longrightarrow> students d' = students d"
  by (auto simp: insert_attendance_def split: if_splits)

lemma insert_notification_students:
  "insert_notification d row = Inr d' \<Longrightarrow> students d' = students d"
  by (auto simp: insert_notification_def split: if_splits)

lemma expiry_callback_students:
  "students (store (snd (expiry_callback e st s))) = students (store s)"
  by (auto simp: expiry_callback_def expiry_continue_def Let_def split: sum.splits
      dest!: execute_Inr insert_attendance_students insert_notification_students)

lemma api_attendance_record_students:
  "students (store (snd (api_attendance_record e cardId s))) = students (store s)"
  by (auto simp: api_attendance_record_def Let_def split: sum.splits list.splits
      dest!: execute_Inr insert_attendance_students)

lemma api_manual_absent_students:
  "students (store (snd (api_manual_absent e studentId s))) = students (store s)"
  by (auto simp: api_manual_absent_def Let_def split: sum.splits list.splits
      dest!: execute_Inr insert_attendance_students)

lemma api_students_delete_distinct:
  "distinct (map s_id (students (store s)))
     \<Longrightarrow> distinct (map s_id (students (store (snd (api_students_delete e i s)))))"
  by (auto simp: api_students_delete_def delete_student_def execute_def Let_def
      distinct_map_filter)

text \<open>The primary key of \<^verbatim>\<open>students\<close>: a run never makes two students share an id.\<close>

lemma run_distinct_roster:
  "distinct (map s_id (students (store s)))
     \<Longrightarrow> distinct (map s_id (students (store (run evs s))))"
  unfolding run_def
proof (induction evs arbitrary: s)
  case Nil
  then show ?case by simp
next
  case (Cons ev evs)
  have "distinct (map s_id (students (store (step ev s))))"
    using Cons.prems
    by (cases ev)
       (simp_all add: fire_def Let_def expiry_callback_students api_attendance_record_students
          api_manual_absent_students api_students_delete_distinct
          split: option.splits callback.splits)
  then show ?case
    using Cons.IH by simp
qed

text \<open>
  So every state of a run that starts in a well-formed state, such as the process before
  \<^verbatim>\<open>startDaySystem\<close>, meets what the day-cycle tick needs.
\<close>

lemma run_tick_ready:
  assumes "timers_wf s" and "distinct (map s_id (students (store s)))"
  shows "handles_issued (run evs s) \<and> all_registered (run evs s)
       \<and> distinct (map s_id (students (store (run evs s))))"
  using assms
  by (simp add: run_timers_wf run_distinct_roster timers_wf_handles_issued
      timers_wf_all_registered)

section \<open>One mark per person and day\<close>

text \<open>
  C1 on the code. The \<^verbatim>\<open>attendance\<close> table has no unique key on
  \<^verbatim>\<open>(student_id, date)\<close>, so the store accepts a second mark for Alice on day 10 under a
  new row id. The writers rely on reading first: Alice's timeout fires and its callback
  reads no mark for today; while it awaits, Alice's check-in runs and inserts a present
  mark; the callback resumes with what it read and inserts an absent mark. The day then
  has two marks for Alice.
\<close>

theorem check_in_during_expiry_two_marks:
  "insert_attendance (store alice_checked_in) (absent_row (env0\<lparr>uuid1 := ''u3''\<rparr>) alice)
     = Inr ((store alice_checked_in)
             \<lparr>attendance := [present_row env0 alice,
                             absent_row (env0\<lparr>uuid1 := ''u3''\<rparr>) alice]\<rparr>)
   \<and> (let fired = clearTimeout 0 running;
           existing = select_attendance (store fired) (s_id alice) 10;
           checked_in = snd (api_attendance_record env0 ''C1'' fired);
           resumed = snd (expiry_continue (env0\<lparr>uuid1 := ''u3''\<rparr>) alice existing checked_in)
       in existing = []
          \<and> fst (api_attendance_record env0 ''C1'' fired) = SuccessStudent alice
          \<and> map a_status (select_attendance (store resumed) (s_id alice) 10) = [Present, Absent]
          \<and> \<not> unique_marks (store resumed))"
proof -
  have streak: "checkConsecutiveAbsences (env0\<lparr>uuid1 := ''u3''\<rparr>)
                  ((store running)\<lparr>attendance := [present_row env0 alice,
                       absent_row (env0\<lparr>uuid1 := ''u3''\<rparr>) alice]\<rparr>) ''id-alice'' = 0"
    by (simp add: streak_eval absent_row_def present_row_def env0_def alice_def
        eval_nat_numeral)
  have accepted: "insert_attendance (store alice_checked_in)
                     (absent_row (env0\<lparr>uuid1 := ''u3''\<rparr>) alice)
     = Inr ((store alice_checked_in)
             \<lparr>attendance := [present_row env0 alice,
                             absent_row (env0\<lparr>uuid1 := ''u3''\<rparr>) alice]\<rparr>)"
    by (simp add: alice_checked_in_store insert_attendance_def absent_row_def present_row_def
        env0_def running_def idle_def alice_def)
  have race: "let fired = clearTimeout 0 running;
           existing = select_attendance (store fired) (s_id alice) 10;
           checked_in = snd (api_attendance_record env0 ''C1'' fired);
           resumed = snd (expiry_continue (env0\<lparr>uuid1 := ''u3''\<rparr>) alice existing checked_in)
       in existing = []
          \<and> fst (api_attendance_record env0 ''C1'' fired) = SuccessStudent alice
          \<and> map a_status (select_attendance (store resumed) (s_id alice) 10) = [Present, Absent]
          \<and> \<not> unique_marks (store resumed)"
    using streak
    by (simp add: Let_def clearTimeout_def api_attendance_record_def expiry_continue_def
        select_students_by_card_def select_attendance_def insert_attendance_def
        clearStudentTimer_def unique_marks_def absent_row_def present_row_def execute_def
        env0_def running_def idle_def alice_def bob_def)
  show ?thesis
    using accepted race by simp
qed

section \<open>Handlers that run to completion keep one mark per person and day\<close>

lemma unique_marks_append:
  assumes "unique_marks d"
    and "select_attendance d (a_student_id row) (a_date row) = []"
  shows "unique_marks (d\<lparr>attendance := attendance d @ [row]\<rparr>)"
proof -
  have "(a_student_id row, a_date row)
          \<notin> set (map (\<lambda>a. (a_student_id a, a_date a)) (attendance d))"
    using assms(2) by (auto simp: select_attendance_def filter_empty_conv)
  then show ?thesis
    using assms(1) by (simp add: unique_marks_def)
qed

lemma insert_attendance_unique_marks:
  assumes "insert_attendance d row = Inr d'" and "unique_marks d"
    and "select_attendance d (a_student_id row) (a_date row) = []"
  shows "unique_marks d'"
  using assms unique_marks_append [of d row]
  by (auto simp: insert_attendance_def split: if_splits)

lemma insert_notification_unique_marks:
  "insert_notification d row = Inr d' \<Longrightarrow> unique_marks d \<Longrightarrow> unique_marks d'"
  by (auto simp: insert_notification_def unique_marks_def split: if_splits)

lemma delete_student_unique_marks:
  "unique_marks d \<Longrightarrow> unique_marks (snd (delete_student d i))"
  by (auto simp: delete_student_def unique_marks_def distinct_map_filter)

lemma expiry_callback_unique_marks:
  assumes "unique_marks (store s)"
  shows "unique_marks (store (snd (expiry_callback e st s)))"
proof (cases "fail_at e = Some 0")
  case True
  then show ?thesis
    using assms by (simp add: expiry_callback_def execute_def)
next
  case False
  have row: "a_student_id (absent_row e st) = s_id st" "a_date (absent_row e st) = getCurrentDate e"
    by (simp_all add: absent_row_def)
  have "unique_marks (store (snd (expiry_continue e st
          (select_attendance (store s) (s_id st) (getCurrentDate e)) s)))"
    using assms row
    by (auto simp: expiry_continue_def Let_def split: sum.splits
        dest!: execute_Inr
        dest: insert_attendance_unique_marks insert_notification_unique_marks)
  with False show ?thesis
    by (simp add: expiry_callback_def execute_def)
qed

lemma api_attendance_record_unique_marks:
  assumes "unique_marks (store s)"
  shows "unique_marks (store (snd (api_attendance_record e cardId s)))"
proof -
  have row: "a_student_id (present_row e st) = s_id st"
    "a_date (present_row e st) = getCurrentDate e" for st
    by (simp_all add: present_row_def)
  show ?thesis
    using assms row
    by (auto simp: api_attendance_record_def Let_def split: sum.splits list.splits
        dest!: execute_Inr dest: insert_attendance_unique_marks)
qed

lemma api_manual_absent_unique_marks:
  assumes "unique_marks (store s)"
  shows "unique_marks (store (snd (api_manual_absent e studentId s)))"
proof -
  have row: "a_student_id (manual_absent_row e st) = s_id st"
    "a_date (manual_absent_row e st) = getCurrentDate e" for st
    by (simp_all add: manual_absent_row_def)
  show ?thesis
    using assms row
    by (auto simp: api_manual_absent_def Let_def split: sum.splits list.splits
        dest!: execute_Inr dest: insert_attendance_unique_marks)
qed

lemma api_students_delete_unique_marks:
  assumes "unique_marks (store s)"
  shows "unique_marks (store (snd (api_students_delete e i s)))"
  using assms delete_student_unique_marks [of "store s" i]
  by (auto simp: api_students_delete_def Let_def split: sum.splits prod.splits
      dest!: execute_Inr)

text \<open>
  Every event of a run starts when the one before it has finished, so each writer's
  read still holds when it inserts, and the invariant of the data model is kept.
\<close>

lemma run_unique_marks:
  "unique_marks (store s) \<Longrightarrow> unique_marks (store (run evs s))"
  unfolding run_def
proof (induction evs arbitrary: s)
  case Nil
  then show ?case by simp
next
  case (Cons ev evs)
  have "unique_marks (store (step ev s))"
    using Cons.prems
    by (cases ev)
       (simp_all add: fire_def Let_def expiry_callback_unique_marks
          api_attendance_record_unique_marks api_manual_absent_unique_marks
          api_students_delete_unique_marks
          split: option.splits callback.splits)
  then show ?case
    using Cons.IH by simp
qed

section \<open>The attendance rate of a daily report\<close>

text \<open>The division is guarded: with no students the rate is 0, whatever the count.\<close>

lemma attendanceRate_no_students: "attendanceRate presentCount 0 = 0"
  by (simp add: attendanceRate_def)

text \<open>
  The numbers: \<^const>\<open>bit_length\<close> and \<^const>\<open>floor_log2\<close> compute what their names say, and
  \<^const>\<open>round_half_even\<close> returns a nearest integer.
\<close>

lemma bit_length_nonneg: "0 \<le> bit_length n"
proof (induction n rule: bit_length.induct)
  case (1 n)
  then show ?case
    by (cases "n \<le> 0") (simp_all add: bit_length.simps [of n])
qed

lemma bit_length_pos: "0 < n \<Longrightarrow> 1 \<le> bit_length n"
  using bit_length_nonneg [of "n div 2"] by (simp add: bit_length.simps [of n])

lemma bit_length_bounds:
  "0 < n \<Longrightarrow> 2 ^ nat (bit_length n - 1) \<le> n \<and> n < 2 ^ nat (bit_length n)"
proof (induction n rule: bit_length.induct)
  case (1 n)
  show ?case
  proof (cases "0 < n div 2")
    case False
    with "1.prems" have "n = 1" by linarith
    then show ?thesis
      by (simp add: bit_length.simps [of 1] bit_length.simps [of 0])
  next
    case True
    let ?b = "bit_length (n div 2)"
    have IH: "2 ^ nat (?b - 1) \<le> n div 2" "n div 2 < 2 ^ nat ?b"
      using "1.IH" "1.prems" True by simp_all
    have b: "1 \<le> ?b" using bit_length_pos [OF True] .
    have eq: "bit_length n = 1 + ?b"
      using "1.prems" by (simp add: bit_length.simps [of n])
    have p: "(2::int) ^ nat ?b = 2 * 2 ^ nat (?b - 1)"
      using b by (metis Suc_nat_eq_nat_zadd1 add.commute diff_add_cancel diff_ge_0_iff_ge power_Suc)
    have p2: "(2::int) ^ nat (1 + ?b) = 2 * 2 ^ nat ?b"
      using b by (simp add: nat_add_distrib)
    have "2 * (n div 2) \<le> n" "n \<le> 2 * (n div 2) + 1" by linarith+
    then show ?thesis
      using IH p p2 by (simp add: eq)
  qed
qed


lemma bit_length_bounds_rat:
  assumes "0 < n"
  shows "(2::rat) powi (bit_length n - 1) \<le> of_int n" "of_int n < (2::rat) powi bit_length n"
proof -
  have l: "1 \<le> bit_length n" using assms by (rule bit_length_pos)
  have "(of_int (2 ^ nat (bit_length n - 1)) :: rat) \<le> of_int n"
    using bit_length_bounds [OF assms] by (simp only: of_int_le_iff)
  then show "(2::rat) powi (bit_length n - 1) \<le> of_int n"
    using l by (simp add: power_int_def)
  have "(of_int n :: rat) < of_int (2 ^ nat (bit_length n))"
    using bit_length_bounds [OF assms] by (simp only: of_int_less_iff)
  then show "of_int n < (2::rat) powi bit_length n"
    using l by (simp add: power_int_def)
qed

lemma floor_log2_bounds:
  assumes "0 < x"
  shows "2 powi floor_log2 x \<le> x \<and> x < 2 powi (floor_log2 x + 1)"
proof -
  obtain a b where q: "quotient_of x = (a, b)" by (cases "quotient_of x")
  have b: "0 < b" using q by (rule quotient_of_denom_pos)
  have x: "x = of_int a / of_int b" using q by (rule quotient_of_div)
  have a: "0 < a" using assms b x by (simp add: zero_less_divide_iff)
  let ?la = "bit_length a" and ?lb = "bit_length b"
  let ?k = "?la - ?lb"
  note A = bit_length_bounds_rat [OF a] and B = bit_length_bounds_rat [OF b]
  have pos: "(0::rat) < 2 powi n" for n by simp
  have "(2::rat) powi (?la - 1) / 2 powi ?lb \<le> of_int a / of_int b"
    using A(1) B(2) a b by (intro frac_le) simp_all
  moreover have "(2::rat) powi (?la - 1) / 2 powi ?lb = 2 powi (?k - 1)"
  proof -
    have "?k - 1 = (?la - 1) - ?lb" by simp
    then show ?thesis by (simp only: power_int_diff [of "2::rat", simplified])
  qed
  ultimately have lo: "2 powi (?k - 1) \<le> x" using x by simp
  have "of_int a / of_int b < (2::rat) powi ?la / 2 powi (?lb - 1)"
    using A B a b pos [of "?lb - 1"] by (intro frac_less) simp_all
  moreover have "(2::rat) powi ?la / 2 powi (?lb - 1) = 2 powi (?k + 1)"
  proof -
    have "?k + 1 = ?la - (?lb - 1)" by simp
    then show ?thesis by (simp only: power_int_diff [of "2::rat", simplified])
  qed
  ultimately have hi: "x < 2 powi (?k + 1)" using x by simp
  have "floor_log2 x = (if 2 powi ?k \<le> x then ?k else ?k - 1)"
    using q by (simp add: floor_log2_def Let_def)
  then show ?thesis
    using lo hi by (cases "2 powi ?k \<le> x") simp_all
qed


lemma round_half_even_nearest:
  "\<bar>of_int (round_half_even y) - y\<bar> \<le> \<bar>of_int m - y\<bar>"
proof -
  let ?f = "\<lfloor>y\<rfloor>"
  have f: "of_int ?f \<le> y" "y < of_int ?f + 1" by linarith+
  have "m \<le> ?f \<or> ?f + 1 \<le> m" by linarith
  then have m: "(of_int m :: rat) \<le> of_int ?f \<or> (of_int ?f :: rat) + 1 \<le> of_int m"
    by (metis of_int_le_iff of_int_add of_int_1)
  have "(round_half_even y = ?f \<and> y - of_int ?f \<le> 1 / 2)
      \<or> (round_half_even y = ?f + 1 \<and> 1 / 2 \<le> y - of_int ?f)"
    by (simp add: round_half_even_def Let_def)
  then show ?thesis
  proof
    assume "round_half_even y = ?f \<and> y - of_int ?f \<le> 1 / 2"
    then show ?thesis using f m by (simp add: abs_if) linarith
  next
    assume "round_half_even y = ?f + 1 \<and> 1 / 2 \<le> y - of_int ?f"
    then show ?thesis using f m by (simp add: abs_if) linarith
  qed
qed

lemma round_half_even_floor:
  "\<lfloor>y\<rfloor> \<le> round_half_even y \<and> round_half_even y \<le> \<lfloor>y\<rfloor> + 1"
  by (simp add: round_half_even_def Let_def)

text \<open>
  \<open>binary64 x\<close> is a 53-bit significand times a power of two, and no other multiple
  of that power of two is nearer to \<open>x\<close>.
\<close>

lemma binary64_nearest:
  assumes "0 < x"
  shows "\<exists>m. binary64 x = of_int m * 2 powi (floor_log2 x - 52)
             \<and> 2 ^ 52 \<le> m \<and> m \<le> 2 ^ 53
             \<and> (\<forall>m'. \<bar>binary64 x - x\<bar> \<le> \<bar>of_int m' * 2 powi (floor_log2 x - 52) - x\<bar>)"
proof -
  let ?e = "floor_log2 x - 52"
  let ?y = "x / 2 powi ?e"
  let ?m = "round_half_even ?y"
  have p: "(0::rat) < 2 powi ?e" by simp
  have b: "binary64 x = of_int ?m * 2 powi ?e"
    using assms by (simp add: binary64_def Let_def)
  have "2 powi floor_log2 x / 2 powi ?e \<le> ?y" "?y < 2 powi (floor_log2 x + 1) / 2 powi ?e"
    using floor_log2_bounds [OF assms] p
    by (simp_all add: divide_right_mono divide_strict_right_mono)
  moreover have "(2::rat) powi floor_log2 x / 2 powi ?e = 2 ^ 52"
    using power_int_diff [of "2::rat" "floor_log2 x" ?e] by simp
  moreover have "(2::rat) powi (floor_log2 x + 1) / 2 powi ?e = 2 ^ 53"
    using power_int_diff [of "2::rat" "floor_log2 x + 1" ?e] by simp
  ultimately have y: "2 ^ 52 \<le> ?y" "?y < 2 ^ 53" by simp_all
  have "(2::int) ^ 52 \<le> \<lfloor>?y\<rfloor>" using y(1) by (simp add: le_floor_iff)
  moreover have "\<lfloor>?y\<rfloor> < (2::int) ^ 53" using y(2) by (simp add: floor_less_iff)
  ultimately have m: "2 ^ 52 \<le> ?m" "?m \<le> 2 ^ 53"
    using round_half_even_floor [of ?y] by linarith+
  have near: "\<bar>binary64 x - x\<bar> \<le> \<bar>of_int m' * 2 powi ?e - x\<bar>" for m'
  proof -
    have "\<bar>of_int ?m - ?y\<bar> * 2 powi ?e \<le> \<bar>of_int m' - ?y\<bar> * 2 powi ?e"
      using round_half_even_nearest [of ?y m'] p by (simp add: mult_right_mono)
    moreover have "\<bar>of_int k - ?y\<bar> * 2 powi ?e = \<bar>of_int k * 2 powi ?e - x\<bar>" for k
    proof -
      have "\<bar>of_int k - ?y\<bar> * 2 powi ?e = \<bar>(of_int k - ?y) * 2 powi ?e\<bar>"
        using p by (simp add: abs_mult)
      also have "(of_int k - ?y) * 2 powi ?e = of_int k * 2 powi ?e - x"
        using p by (simp add: algebra_simps)
      finally show ?thesis .
    qed
    ultimately show ?thesis by (simp add: b)
  qed
  show ?thesis
    using b m near by blast
qed

lemma round_half_even_tie:
  "y - of_int \<lfloor>y\<rfloor> = 1 / 2 \<Longrightarrow> even (round_half_even y)"
  by (simp add: round_half_even_def Let_def)

lemma binary64_23_40: "binary64 (23 / 40) = 2589569785738035 / 4503599627370496"
  by code_simp

lemma binary64_23_40_times_100:
  "binary64 (2589569785738035 / 4503599627370496 * 100) = 8092405580431359 / 140737488355328"
  by code_simp

lemma Math_round_57: "Math_round (8092405580431359 / 140737488355328) = 57"
  by code_simp

lemma attendanceRate_23_40: "attendanceRate 23 40 = 57"
proof -
  have "attendanceRate 23 40 = Math_round (binary64 (binary64 (23 / 40) * 100))"
    by (simp add: attendanceRate_def)
  also have "\<dots> = Math_round (binary64 (2589569785738035 / 4503599627370496 * 100))"
    by (simp only: binary64_23_40)
  also have "\<dots> = Math_round (8092405580431359 / 140737488355328)"
    by (simp only: binary64_23_40_times_100)
  also have "\<dots> = 57"
    by (rule Math_round_57)
  finally show ?thesis .
qed

text \<open>What \<^verbatim>\<open>attendanceData.find(r => r.status === ...)?.count || 0\<close> comes to.\<close>

lemma count_by_status_find:
  "(case find (\<lambda>r. fst r = st) (count_by_status d day) of Some r \<Rightarrow> snd r | None \<Rightarrow> 0)
     = int (length (filter (\<lambda>a. a_date a = day \<and> a_status a = st) (attendance d)))"
  by (cases st) (simp_all add: count_by_status_def Let_def)

text \<open>
  What the route stores. A report is generated with the store answering every
  statement, no report for the day yet and an unused id. The report is appended and
  carries the day's count of present marks and the number of students; its attendance
  rate is 0 when there are no students (the division is not evaluated), and otherwise
  \<^verbatim>\<open>Math.round\<close> of the product, in double arithmetic, of 100 and the quotient, in
  double arithmetic, of the two counts.
\<close>

lemma api_reports_generate_rate:
  assumes "fail_at e = None"
    and "getCurrentDate e \<notin> set (map r_date (daily_reports (store s)))"
    and "uuid1 e \<notin> set (map r_id (daily_reports (store s)))"
  shows "let presentCount =
               int (length (filter (\<lambda>a. a_date a = getCurrentDate e \<and> a_status a = Present)
                              (attendance (store s))));
             totalStudents = int (length (students (store s)));
             reports = daily_reports (store (snd (api_reports_generate e s)))
         in fst (api_reports_generate e s) = Success
          \<and> reports \<noteq> [] \<and> butlast reports = daily_reports (store s)
          \<and> r_date (last reports) = getCurrentDate e
          \<and> r_total_students (last reports) = totalStudents
          \<and> r_present_count (last reports) = presentCount
          \<and> r_attendance_rate (last reports)
              = (if totalStudents = 0 then 0
                 else Math_round
                        (binary64 (binary64 (of_int presentCount / of_int totalStudents) * 100)))"
proof -
  have none: "filter (\<lambda>r. r_date r = getCurrentDate e) (daily_reports (store s)) = []"
    using assms(2) by (force simp: filter_empty_conv)
  have ins: "insert_daily_report (store s) row
               = Inr ((store s)\<lparr>daily_reports := daily_reports (store s) @ [row]\<rparr>)"
    if "r_id row = uuid1 e" "r_date row = getCurrentDate e" for row
    using assms(2,3) that by (simp add: insert_daily_report_def)
  show ?thesis
    using assms(1) none
    by (simp add: api_reports_generate_def Let_def ins count_by_status_find attendanceRate_def)
qed

lemma api_reports_generate_rate_example:
  "fst (api_reports_generate env0 school) = Success
   \<and> r_total_students (last (daily_reports (store (snd (api_reports_generate env0 school))))) = 40
   \<and> r_present_count (last (daily_reports (store (snd (api_reports_generate env0 school))))) = 23
   \<and> r_attendance_rate (last (daily_reports (store (snd (api_reports_generate env0 school))))) = 57
   \<and> fst (api_reports_generate env0 no_students) = Success
   \<and> r_total_students (last (daily_reports (store (snd (api_reports_generate env0 no_students)))))
       = 0
   \<and> r_attendance_rate (last (daily_reports (store (snd (api_reports_generate env0 no_students)))))
       = 0"
proof -
  have env: "fail_at env0 = None" by (simp add: env0_def)
  have h: "getCurrentDate env0 \<notin> set (map r_date (daily_reports (store school)))"
    "uuid1 env0 \<notin> set (map r_id (daily_reports (store school)))"
    "getCurrentDate env0 \<notin> set (map r_date (daily_reports (store no_students)))"
    "uuid1 env0 \<notin> set (map r_id (daily_reports (store no_students)))"
    by (simp_all add: school_def no_students_def idle_def)
  have counts:
    "int (length (filter (\<lambda>a. a_date a = getCurrentDate env0 \<and> a_status a = Present)
                    (attendance (store school)))) = 23"
    "int (length (students (store school))) = 40"
    "int (length (students (store no_students))) = 0"
    by (simp_all add: school_def no_students_def idle_def mark_def env0_def)
  have rate: "Math_round (binary64 (binary64 (of_int 23 / of_int 40) * 100)) = 57"
    using attendanceRate_23_40 by (simp add: attendanceRate_def)
  have a: "fst (api_reports_generate env0 school) = Success
   \<and> r_total_students (last (daily_reports (store (snd (api_reports_generate env0 school))))) = 40
   \<and> r_present_count (last (daily_reports (store (snd (api_reports_generate env0 school))))) = 23
   \<and> r_attendance_rate (last (daily_reports (store (snd (api_reports_generate env0 school))))) = 57"
    using api_reports_generate_rate [OF env h(1,2)] rate
    by (simp only: Let_def counts) simp
  have b: "fst (api_reports_generate env0 no_students) = Success
   \<and> r_total_students (last (daily_reports (store (snd (api_reports_generate env0 no_students)))))
       = 0
   \<and> r_attendance_rate (last (daily_reports (store (snd (api_reports_generate env0 no_students)))))
       = 0"
    using api_reports_generate_rate [OF env h(3,4)]
    by (simp only: Let_def counts) simp
  show ?thesis
    using a b by simp
qed

text \<open>
  C10 on the code. A report is generated for 40 students of whom 23 are present. The
  quotient 23 / 40 is the double 0.57499999999999996, its product with 100 is the double
  57.49999999999999, and \<^verbatim>\<open>Math.round\<close> of that is 57: the report is stored with
  attendance rate 57, while 23 / 40 * 100 is 57.5 and rounds to 58. The rate is rounded
  twice, once by the division and once by the product, and the exact tie is lost.
\<close>

theorem attendance_rate_23_of_40:
  "map r_present_count (daily_reports (store (snd (api_reports_generate env0 school)))) = [23]
   \<and> map r_total_students (daily_reports (store (snd (api_reports_generate env0 school)))) = [40]
   \<and> map r_attendance_rate (daily_reports (store (snd (api_reports_generate env0 school)))) = [57]
   \<and> \<lfloor>(23 :: rat) / 40 * 100 + 1 / 2\<rfloor> = 58"
proof -
  have counts: "count_by_status (store school) 10 = [(Present, 23)]"
    "int (length (students (store school))) = 40"
    by (simp_all add: count_by_status_def school_def idle_def mark_def)
  have none: "daily_reports (store school) = []"
    by (simp add: school_def idle_def)
  have run: "api_reports_generate env0 school =
      (Success, school\<lparr>store := (store school)\<lparr>daily_reports :=
         [\<lparr>r_id = ''u1'', r_date = 10, r_day_number = 1, r_total_students = 40,
           r_present_count = 23, r_absent_count = 0, r_attendance_rate = 57\<rparr>]\<rparr>\<rparr>)"
    using counts attendanceRate_23_40 none
    by (simp add: api_reports_generate_def execute_def env0_def insert_daily_report_def
        select_last_day_number_def Let_def)
  show ?thesis
    by (simp add: run)
qed

end
